theory Spec2Isabelle
  imports Main "HOL-Library.Sublist"
begin

section \<open>Python string primitives used by the two programs\<close>

text \<open>
  Strings are character lists. \<open>str_replace old new s\<close> is Python's
  \<^verbatim>\<open>s.replace(old, new)\<close> for a one-character \<open>old\<close>, which is the only way
  the modelled code calls it: every occurrence of the character is replaced, left to right.
\<close>

primrec str_replace :: "char \<Rightarrow> string \<Rightarrow> string \<Rightarrow> string" where
  "str_replace old new [] = []"
| "str_replace old new (c # cs) =
     (if c = old then new @ str_replace old new cs else c # str_replace old new cs)"

text \<open>
  \<open>split_on sep s\<close> is \<^verbatim>\<open>s.split(sep)\<close> for a one-character separator: the
  result is never empty, and \<open>n\<close> separators give \<open>n + 1\<close> parts (possibly empty ones).
\<close>

fun split_on :: "char \<Rightarrow> string \<Rightarrow> string list" where
  "split_on sep [] = [[]]"
| "split_on sep (c # cs) =
     (let parts = split_on sep cs
      in if c = sep then [] # parts else (c # hd parts) # tl parts)"

text \<open>\<^verbatim>\<open>s.split(".")[0]\<close> and \<^verbatim>\<open>s.split(".")[-1]\<close>.\<close>

definition first_segment :: "string \<Rightarrow> string" where
  "first_segment s = hd (split_on (CHR ''.'') s)"

definition last_segment :: "string \<Rightarrow> string" where
  "last_segment s = last (split_on (CHR ''.'') s)"

text \<open>Python truthiness of an optional string: \<^verbatim>\<open>None\<close> and \<^verbatim>\<open>""\<close> are falsy.\<close>

definition truthy :: "string option \<Rightarrow> bool" where
  "truthy s = (case s of None \<Rightarrow> False | Some v \<Rightarrow> v \<noteq> [])"

section \<open>API\_Parser/extract\_package\_api.py\<close>

subsection \<open>The entry-point file as \<^verbatim>\<open>ast.parse\<close> returns it\<close>

text \<open>
  Only the node classes that \<^verbatim>\<open>parse_init_file\<close> tests for are distinguished.
  An \<^verbatim>\<open>ast.alias\<close> has the imported name and the optional \<^verbatim>\<open>asname\<close>;
  \<^verbatim>\<open>ast.ImportFrom\<close> has \<^verbatim>\<open>module\<close> (absent for \<^verbatim>\<open>from . import x\<close>),
  \<^verbatim>\<open>names\<close> and \<^verbatim>\<open>level\<close>; \<^verbatim>\<open>ast.Assign\<close> has \<^verbatim>\<open>targets\<close> and
  \<^verbatim>\<open>value\<close>. Reading the file and parsing it happen before the modelled part; a
  syntax error is raised there.
\<close>

datatype import_alias = Import_Alias (alias_name: string) (alias_asname: "string option")

datatype ast_expr =
    Ast_Name string
  | Ast_List "ast_expr list"
  | Ast_Tuple "ast_expr list"
  | Ast_Str string
  | Ast_Other_Expr

datatype ast_stmt =
    Import "import_alias list"
  | ImportFrom "string option" "import_alias list" nat
  | Assign "ast_expr list" ast_expr
  | Other_Stmt

text \<open>The innermost loop: \<^verbatim>\<open>for elt in node.value.elts: if isinstance(elt, ast.Str): symbols.add(elt.s)\<close>.\<close>

fun add_str_elt :: "ast_expr \<Rightarrow> string set \<Rightarrow> string set" where
  "add_str_elt (Ast_Str s) symbols = insert s symbols"
| "add_str_elt _ symbols = symbols"

text \<open>The body of \<^verbatim>\<open>for node in tree.body\<close>, one branch per \<^verbatim>\<open>isinstance\<close> test.\<close>

fun visit_stmt :: "ast_stmt \<Rightarrow> string set \<Rightarrow> string set" where
  "visit_stmt (Import names) symbols =
     fold (\<lambda>a s. insert (first_segment (alias_name a)) s) names symbols"
| "visit_stmt (ImportFrom module names level) symbols =
     (let symbols1 =
        (if truthy module \<and> first_segment (the module) \<noteq> []
         then insert (first_segment (the module)) symbols else symbols)
      in fold (\<lambda>a s. insert (alias_name a) s) names symbols1)"
| "visit_stmt (Assign targets v) symbols =
     (if targets = [Ast_Name ''__all__''] then
        (case v of
           Ast_List elts \<Rightarrow> fold add_str_elt elts symbols
         | Ast_Tuple elts \<Rightarrow> fold add_str_elt elts symbols
         | _ \<Rightarrow> symbols)
      else symbols)"
| "visit_stmt Other_Stmt symbols = symbols"

definition parse_init_file :: "ast_stmt list \<Rightarrow> string set" where
  "parse_init_file body = fold visit_stmt body {}"

subsection \<open>The loaded package as \<^verbatim>\<open>inspect\<close> shows it\<close>

text \<open>
  What the extractor can observe of one Python object through \<^verbatim>\<open>inspect\<close>:
  \<^item> \<open>insp_doc\<close>: the result of \<^verbatim>\<open>inspect.getdoc(obj)\<close> (\<^verbatim>\<open>None\<close> or text);
  \<^item> \<open>insp_source\<close>: \<open>Some\<close> text when \<^verbatim>\<open>inspect.getsource(obj)\<close> returns,
    \<open>None\<close> when it raises an \<^verbatim>\<open>Exception\<close> (a built-in or compiled object);
  \<^item> \<open>insp_signature\<close>: \<open>Some\<close> of the printed signature and of the parameters in
    declaration order, each with "has a default", when \<^verbatim>\<open>inspect.signature(obj)\<close>
    returns; \<open>None\<close> when it raises an \<^verbatim>\<open>Exception\<close>;
  \<^item> \<open>insp_module\<close>: \<^verbatim>\<open>getattr(obj, '__module__', None)\<close>;
  \<^item> \<open>insp_file\<close>: \<open>Some\<close> of \<^verbatim>\<open>os.path.relpath(inspect.getfile(obj))\<close>, \<open>None\<close> when
    \<^verbatim>\<open>getfile\<close> raises or returns an empty path.
\<close>

record introspection =
  insp_doc :: "string option"
  insp_source :: "string option"
  insp_signature :: "(string \<times> (string \<times> bool) list) option"
  insp_module :: "string option"
  insp_file :: "string option"

text \<open>
  A member of a class as \<^verbatim>\<open>inspect.getmembers(cls)\<close> lists it (inherited members
  included): a function, a bound method, or anything else.
\<close>

datatype py_attr = Attr_Function introspection | Attr_Method introspection | Attr_Other

text \<open>
  A class object: its \<^verbatim>\<open>__name__\<close>, its truth value (\<^verbatim>\<open>True\<close> unless a metaclass
  says otherwise), what \<^verbatim>\<open>inspect\<close> shows of it, and its members sorted by name.
\<close>

record py_class =
  cls_name :: string
  cls_truthy :: bool
  cls_insp :: introspection
  cls_members :: "(string \<times> py_attr) list"

text \<open>
  A member of a module: another module (a reference into the heap, since module graphs are
  cyclic), a class, a plain function, or anything else (bound methods included, which
  \<^verbatim>\<open>traverse_module\<close> does not test for at module level).
\<close>

datatype py_member =
    Mem_Module nat
  | Mem_Class py_class
  | Mem_Function introspection
  | Mem_Other

text \<open>
  A module object: its \<^verbatim>\<open>__name__\<close> attribute if it has one, and the result of
  \<^verbatim>\<open>inspect.getmembers(module)\<close>. The heap is the list of all module objects;
  \<open>Mem_Module i\<close> refers to the \<open>i\<close>-th one.
\<close>

record py_module =
  py_name :: "string option"
  py_insp :: introspection
  py_members :: "(string \<times> py_member) list"

type_synonym heap = "py_module list"

subsection \<open>\<^verbatim>\<open>build_api_item\<close>\<close>

text \<open>
  The dictionary that \<^verbatim>\<open>build_api_item\<close> returns, with the keys \<^verbatim>\<open>_id\<close>,
  \<^verbatim>\<open>doc\<close>, \<^verbatim>\<open>source_code\<close>, \<^verbatim>\<open>signature\<close>, \<^verbatim>\<open>parameters\<close>, \<^verbatim>\<open>type\<close>,
  \<^verbatim>\<open>class\<close>, \<^verbatim>\<open>from_init\<close>, \<^verbatim>\<open>module\<close> and \<^verbatim>\<open>file\<close>. The three entries
  \<^verbatim>\<open>is_deprecated\<close>, \<^verbatim>\<open>returns_doc\<close> and \<^verbatim>\<open>raise_doc\<close> are computed from
  \<^verbatim>\<open>doc\<close> alone by text search and are not part of this record.
\<close>

record api_item =
  item_id :: string
  item_doc :: string
  source_code :: "string option"
  item_signature :: string
  parameters :: "(string \<times> bool) list"
  item_type :: string
  item_class :: "string option"
  from_init :: bool
  item_module :: "string option"
  item_file :: "string option"

text \<open>Which of \<^verbatim>\<open>inspect.isclass\<close>, \<^verbatim>\<open>isfunction\<close>/\<^verbatim>\<open>ismethod\<close>, \<^verbatim>\<open>ismodule\<close> holds of the object.\<close>

datatype obj_category = Is_Class | Is_Function | Is_Module | Is_Other

text \<open>\<^verbatim>\<open>if parent_class\<close>: the argument is given and is a truthy object.\<close>

definition parent_truthy :: "py_class option \<Rightarrow> bool" where
  "parent_truthy parent_class = (case parent_class of None \<Rightarrow> False | Some c \<Rightarrow> cls_truthy c)"

definition build_api_item ::
    "string \<Rightarrow> obj_category \<Rightarrow> introspection \<Rightarrow> py_class option \<Rightarrow> api_item" where
  "build_api_item full_id cat obj parent_class =
     (let doc = (case insp_doc obj of None \<Rightarrow> '''' | Some d \<Rightarrow> d);
          source_code = insp_source obj;
          sig = (case insp_signature obj of None \<Rightarrow> ''()'' | Some (text, ps) \<Rightarrow> text);
          obj_type =
            (case cat of
               Is_Class \<Rightarrow> ''class''
             | Is_Function \<Rightarrow>
                 (if parent_truthy parent_class then ''member_function'' else ''function'')
             | Is_Module \<Rightarrow> ''module''
             | Is_Other \<Rightarrow> ''unknown'');
          parameters_info =
            (if obj_type = ''function'' \<or> obj_type = ''member_function'' then
               (case insp_signature obj of None \<Rightarrow> [] | Some (text, ps) \<Rightarrow> ps)
             else [])
      in \<lparr> item_id = full_id,
           item_doc = doc,
           source_code = source_code,
           item_signature = sig,
           parameters = parameters_info,
           item_type = obj_type,
           item_class =
             (if parent_truthy parent_class then Some (cls_name (the parent_class)) else None),
           from_init = False,
           item_module = insp_module obj,
           item_file = insp_file obj \<rparr>)"

subsection \<open>\<^verbatim>\<open>traverse_module\<close>\<close>

text \<open>\<^verbatim>\<open>getattr(module, "__name__", dflt)\<close>.\<close>

definition name_or :: "string \<Rightarrow> py_module \<Rightarrow> string" where
  "name_or dflt m = (case py_name m of None \<Rightarrow> dflt | Some n \<Rightarrow> n)"

text \<open>
  The inner loop over the members of a class:
  \<^verbatim>\<open>for sub_name, sub_member in inspect.getmembers(member)\<close>.
\<close>

fun class_member_items :: "string \<Rightarrow> py_class \<Rightarrow> (string \<times> py_attr) list \<Rightarrow> api_item list" where
  "class_member_items full_id member [] = []"
| "class_member_items full_id member ((sub_name, sub_member) # rest) =
     (case sub_member of
        Attr_Function f \<Rightarrow>
          build_api_item (full_id @ ''.'' @ sub_name) Is_Function f (Some member)
            # class_member_items full_id member rest
      | Attr_Method f \<Rightarrow>
          build_api_item (full_id @ ''.'' @ sub_name) Is_Function f (Some member)
            # class_member_items full_id member rest
      | Attr_Other \<Rightarrow> class_member_items full_id member rest)"

text \<open>
  The loop \<^verbatim>\<open>for name, member in inspect.getmembers(module)\<close>. The set
  \<open>visited\<close> is shared with the recursive calls, so it is passed in and returned with the
  records. \<open>recurse\<close> stands for the recursive call \<^verbatim>\<open>traverse_module(member,
  visited=visited)\<close>; \<open>None\<close> means that the call did not return.
\<close>

fun traverse_members ::
    "(nat \<Rightarrow> string set \<Rightarrow> (api_item list \<times> string set) option) \<Rightarrow> heap \<Rightarrow> string \<Rightarrow>
     (string \<times> py_member) list \<Rightarrow> string set \<Rightarrow> (api_item list \<times> string set) option" where
  "traverse_members recurse h mod_name [] visited = Some ([], visited)"
| "traverse_members recurse h mod_name ((name, member) # rest) visited =
     (let full_id = mod_name @ ''.'' @ name in
      case member of
        Mem_Module i \<Rightarrow>
          (if i < length h then
             (if prefix (first_segment mod_name) (name_or '''' (h ! i)) then
                (case recurse i visited of
                   None \<Rightarrow> None
                 | Some (sub, visited1) \<Rightarrow>
                     (case traverse_members recurse h mod_name rest visited1 of
                        None \<Rightarrow> None
                      | Some (others, visited2) \<Rightarrow> Some (sub @ others, visited2)))
              else traverse_members recurse h mod_name rest visited)
           else None)
      | Mem_Class c \<Rightarrow>
          (case traverse_members recurse h mod_name rest visited of
             None \<Rightarrow> None
           | Some (others, visited2) \<Rightarrow>
               Some (build_api_item full_id Is_Class (cls_insp c) None
                       # class_member_items full_id c (cls_members c) @ others, visited2))
      | Mem_Function f \<Rightarrow>
          (case traverse_members recurse h mod_name rest visited of
             None \<Rightarrow> None
           | Some (others, visited2) \<Rightarrow>
               Some (build_api_item full_id Is_Function f None # others, visited2))
      | Mem_Other \<Rightarrow> traverse_members recurse h mod_name rest visited)"

text \<open>
  \<^verbatim>\<open>traverse_module(module, visited)\<close>. The first argument bounds the depth of the
  recursion: a call that would need more depth than that is \<open>None\<close>. A reference that
  points outside the heap has no Python counterpart and is \<open>None\<close> as well.
\<close>

fun traverse_module ::
    "nat \<Rightarrow> heap \<Rightarrow> nat \<Rightarrow> string set \<Rightarrow> (api_item list \<times> string set) option" where
  "traverse_module 0 h i visited = None"
| "traverse_module (Suc depth) h i visited =
     (if i < length h then
        (let module = h ! i; mod_name = name_or ''unknown'' module in
         if mod_name \<in> visited then Some ([], visited)
         else
           (case traverse_members (traverse_module depth h) h mod_name (py_members module)
                   (insert mod_name visited) of
              None \<Rightarrow> None
            | Some (results, visited1) \<Rightarrow>
                Some (build_api_item mod_name Is_Module (py_insp module) None # results,
                      visited1)))
      else None)"

text \<open>
  The call \<^verbatim>\<open>traverse_module(main_module)\<close> of \<^verbatim>\<open>main\<close>, with a fresh
  \<open>visited\<close> set. Every module that is entered adds a new name to \<open>visited\<close>, so a
  depth of one more than the number of modules is never exceeded.
\<close>

definition traverse :: "heap \<Rightarrow> nat \<Rightarrow> api_item list option" where
  "traverse h root = map_option fst (traverse_module (Suc (length h)) h root {})"

subsection \<open>\<^verbatim>\<open>main\<close>: the export set and the \<^verbatim>\<open>from_init\<close> mark\<close>

text \<open>
  The value of \<^verbatim>\<open>getattr(main_module, '__all__', None)\<close>: absent, a list, a tuple, a
  set, or any other object. Of a list, a tuple or a set whose elements can all be hashed
  only the string elements are kept, since only a string can be equal to a segment of an
  identifier. A list or a tuple with an element that cannot be hashed (a list, say) is
  \<open>All_Unhashable\<close>; a set has no such element.
\<close>

datatype dynamic_all =
    All_None
  | All_List "string list"
  | All_Tuple "string list"
  | All_Set "string set"
  | All_Unhashable
  | All_Other

text \<open>
  \<^verbatim>\<open>if isinstance(dynamic_all, (list, tuple, set)): exported_symbols.update(dynamic_all)\<close>.
  \<^verbatim>\<open>set.update\<close> raises \<^verbatim>\<open>TypeError\<close> on an element that cannot be hashed, and
  nothing in \<^verbatim>\<open>main\<close> catches it: the result is \<open>None\<close>.
\<close>

fun update_exported :: "string set \<Rightarrow> dynamic_all \<Rightarrow> string set option" where
  "update_exported exported_symbols (All_List xs) = Some (exported_symbols \<union> set xs)"
| "update_exported exported_symbols (All_Tuple xs) = Some (exported_symbols \<union> set xs)"
| "update_exported exported_symbols (All_Set xs) = Some (exported_symbols \<union> xs)"
| "update_exported exported_symbols All_Unhashable = None"
| "update_exported exported_symbols All_None = Some exported_symbols"
| "update_exported exported_symbols All_Other = Some exported_symbols"

text \<open>Step 4 of \<^verbatim>\<open>main\<close>: the loop that sets \<^verbatim>\<open>item["from_init"] = True\<close>.\<close>

definition mark_item :: "string set \<Rightarrow> api_item \<Rightarrow> api_item" where
  "mark_item exported_symbols item =
     (if last_segment (item_id item) \<in> exported_symbols then item\<lparr>from_init := True\<rparr> else item)"

text \<open>
  \<^verbatim>\<open>main\<close> from the static parse to the two lists that are written out:
  \<open>(init_only_api, all_api)\<close>. The arguments are the heap and the root module that
  \<^verbatim>\<open>importlib.import_module\<close> returned, the parsed body of the entry-point file, and
  the root module's \<^verbatim>\<open>__all__\<close>. The export set is completed before the traversal
  starts, so a \<^verbatim>\<open>TypeError\<close> there ends the run with no output.
\<close>

definition main :: "heap \<Rightarrow> nat \<Rightarrow> ast_stmt list \<Rightarrow> dynamic_all \<Rightarrow> (api_item list \<times> api_item list) option" where
  "main h root body dyn_all =
     (case update_exported (parse_init_file body) dyn_all of
        None \<Rightarrow> None
      | Some exported_symbols \<Rightarrow>
          (case traverse h root of
             None \<Rightarrow> None
           | Some all_api0 \<Rightarrow>
               (let all_api = map (mark_item exported_symbols) all_api0;
                    init_only_api = filter from_init all_api
                in Some (init_only_api, all_api))))"

section \<open>JSON2KG/build\_kg.py\<close>

subsection \<open>The input document\<close>

text \<open>
  One element of the \<^verbatim>\<open>data\<close> list of the JSON document, with the keys that
  \<^verbatim>\<open>build_kg.py\<close> reads: \<^verbatim>\<open>file\<close>, \<^verbatim>\<open>module\<close>, \<^verbatim>\<open>class\<close>, \<^verbatim>\<open>doc\<close>,
  \<^verbatim>\<open>returns_doc\<close>, \<^verbatim>\<open>parameters\<close>, \<^verbatim>\<open>type\<close> and \<^verbatim>\<open>_id\<close>. A key whose value is
  \<^verbatim>\<open>null\<close> or that is missing is \<open>None\<close>: \<^verbatim>\<open>item.get(key)\<close> is \<^verbatim>\<open>None\<close> for
  both. An entry of \<^verbatim>\<open>parameters\<close> may carry a \<^verbatim>\<open>name\<close> and an
  \<^verbatim>\<open>is_optional\<close> flag, a string and a boolean as the extractor writes them. They are
  read with a default, \<^verbatim>\<open>p_info.get(key, default)\<close>, which stands in for a missing
  key only and returns a stored \<^verbatim>\<open>null\<close> as \<^verbatim>\<open>None\<close>, so the two are kept apart.
\<close>

datatype 'a json_get = Key_Missing | Json_Null | Json_Val 'a

record param_info =
  p_name :: "string json_get"
  p_is_optional :: "bool json_get"

record json_item =
  j_file :: "string option"
  j_module :: "string option"
  j_class :: "string option"
  j_doc :: "string option"
  j_returns_doc :: "string option"
  j_parameters :: "(string \<times> param_info) list"
  j_type :: string
  j_id :: string

subsection \<open>RDF terms and the vocabulary\<close>

text \<open>
  An rdflib term is a \<^verbatim>\<open>URIRef\<close> or a \<^verbatim>\<open>Literal\<close> with an optional datatype; a graph
  is a set of triples. \<open>CODE name\<close> is the attribute \<^verbatim>\<open>CODE.name\<close> of the namespace
  \<^verbatim>\<open>Namespace("http://example.org/code#")\<close>.
\<close>

datatype rdf_node = URIRef string | Literal string "string option"

type_synonym triple = "rdf_node \<times> rdf_node \<times> rdf_node"

definition CODE_ns :: string where
  "CODE_ns = ''http://example.org/code#''"

definition CODE :: "string \<Rightarrow> rdf_node" where
  "CODE name = URIRef (CODE_ns @ name)"

definition RDF_type :: rdf_node where
  "RDF_type = URIRef ''http://www.w3.org/1999/02/22-rdf-syntax-ns#type''"

definition RDFS_label :: rdf_node where
  "RDFS_label = URIRef ''http://www.w3.org/2000/01/rdf-schema#label''"

definition XSD_string :: string where
  "XSD_string = ''http://www.w3.org/2001/XMLSchema#string''"

text \<open>\<^verbatim>\<open>Literal(s, datatype=XSD.string)\<close>.\<close>

definition string_literal :: "string \<Rightarrow> rdf_node" where
  "string_literal s = Literal s (Some XSD_string)"

text \<open>The text of a term inside an f-string: \<^verbatim>\<open>f"{base_ns}"\<close>.\<close>

fun node_text :: "rdf_node \<Rightarrow> string" where
  "node_text (URIRef u) = u"
| "node_text (Literal s d) = s"

text \<open>
  \<^verbatim>\<open>if node:\<close> for a variable that holds \<^verbatim>\<open>None\<close> or a term: a \<^verbatim>\<open>URIRef\<close> is
  a string and is truthy when it is not empty.
\<close>

definition node_truthy :: "rdf_node option \<Rightarrow> bool" where
  "node_truthy n = (case n of None \<Rightarrow> False | Some t \<Rightarrow> node_text t \<noteq> [])"

subsection \<open>Identifier sanitisation\<close>

text \<open>
  The nested function \<^verbatim>\<open>uri_encode(base_ns, identifier)\<close> of
  \<^verbatim>\<open>build_knowledge_graph\<close>: four chained replacements, then the result is
  appended to the text of the namespace term without any separator.
\<close>

definition safe_id :: "string \<Rightarrow> string" where
  "safe_id identifier =
     str_replace (CHR ''.'') ''_''
       (str_replace (CHR '' '') ''_''
         (str_replace (CHR ''/'') ''_''
           (str_replace (CHR 0x5C) ''_'' identifier)))"

definition uri_encode :: "rdf_node \<Rightarrow> string \<Rightarrow> rdf_node" where
  "uri_encode base_ns identifier = URIRef (node_text base_ns @ safe_id identifier)"

subsection \<open>\<^verbatim>\<open>build_knowledge_graph\<close>\<close>

text \<open>
  The state of the loop over \<^verbatim>\<open>data_list\<close>: the graph and the four lookup tables.
\<close>

record kg_state =
  graph :: "triple set"
  script_map :: "string \<rightharpoonup> rdf_node"
  module_map :: "string \<rightharpoonup> rdf_node"
  class_map :: "string \<rightharpoonup> rdf_node"
  api_map :: "string \<rightharpoonup> rdf_node"

definition graph_add :: "triple \<Rightarrow> kg_state \<Rightarrow> kg_state" where
  "graph_add t st = st\<lparr>graph := insert t (graph st)\<rparr>"

text \<open>The ontology triples and the Library node, added before the loop.\<close>

definition library_node_of :: "string \<Rightarrow> rdf_node" where
  "library_node_of library_name =
     URIRef (CODE_ns @ str_replace (CHR '' '') ''_'' library_name)"

definition ontology :: "triple set" where
  "ontology =
     {(CODE ''Library'', RDFS_label, Literal ''Library'' None),
      (CODE ''Script'', RDFS_label, Literal ''Script'' None),
      (CODE ''Module'', RDFS_label, Literal ''Module'' None),
      (CODE ''Class'', RDFS_label, Literal ''Class'' None),
      (CODE ''API'', RDFS_label, Literal ''API'' None),
      (CODE ''Description'', RDFS_label, Literal ''Description'' None),
      (CODE ''ReturnValue'', RDFS_label, Literal ''ReturnValue'' None),
      (CODE ''Parameter'', RDFS_label, Literal ''Parameter'' None),
      (CODE ''hasScript'', RDFS_label, Literal ''has script'' None),
      (CODE ''containModule'', RDFS_label, Literal ''contain module'' None),
      (CODE ''include'', RDFS_label, Literal ''include'' None),
      (CODE ''inherit'', RDFS_label, Literal ''inherit'' None),
      (CODE ''hasMethod'', RDFS_label, Literal ''has method'' None),
      (CODE ''hasReturnValueType'', RDFS_label, Literal ''has return value type'' None),
      (CODE ''hasDescription'', RDFS_label, Literal ''has description'' None),
      (CODE ''hasReturnValue'', RDFS_label, Literal ''has return value'' None),
      (CODE ''hasParameter'', RDFS_label, Literal ''has parameter'' None)}"

definition initial_state :: "string \<Rightarrow> kg_state" where
  "initial_state library_name =
     \<lparr> graph = ontology \<union>
         {(library_node_of library_name, RDF_type, CODE ''Library''),
          (library_node_of library_name, RDFS_label, string_literal library_name)},
       script_map = Map.empty, module_map = Map.empty,
       class_map = Map.empty, api_map = Map.empty \<rparr>"

text \<open>Step 1 of the loop body: the Script node of the record's file.\<close>

definition handle_script :: "rdf_node \<Rightarrow> string option \<Rightarrow> kg_state \<Rightarrow> rdf_node option \<times> kg_state" where
  "handle_script library_node file_str st =
     (if truthy file_str then
        (case script_map st (the file_str) of
           None \<Rightarrow>
             (let script_node = uri_encode (CODE ''Script'') (the file_str);
                  st1 = graph_add (script_node, RDF_type, CODE ''Script'') st;
                  st2 = graph_add (script_node, RDFS_label, string_literal (the file_str)) st1;
                  st3 = graph_add (library_node, CODE ''hasScript'', script_node) st2
              in (Some script_node, st3\<lparr>script_map := (script_map st3)(the file_str \<mapsto> script_node)\<rparr>))
         | Some script_node \<Rightarrow> (Some script_node, st))
      else (None, st))"

text \<open>
  The Module node of a module name that is known to be truthy: created on first use,
  taken from \<^verbatim>\<open>module_map\<close> afterwards. The source has this block twice, in step 2
  and in the fallback of step 3.
\<close>

definition handle_module :: "rdf_node option \<Rightarrow> string \<Rightarrow> kg_state \<Rightarrow> rdf_node option \<times> kg_state" where
  "handle_module script_node module_str st =
     (case module_map st module_str of
        None \<Rightarrow>
          (let mod_node = uri_encode (CODE ''Module'') module_str;
               st1 = graph_add (mod_node, RDF_type, CODE ''Module'') st;
               st2 = graph_add (mod_node, RDFS_label, string_literal module_str) st1;
               st3 = st2\<lparr>module_map := (module_map st2)(module_str \<mapsto> mod_node)\<rparr>;
               st4 = (if node_truthy script_node
                      then graph_add (the script_node, CODE ''containModule'', mod_node) st3
                      else st3)
           in (Some mod_node, st4))
      | Some mod_node \<Rightarrow> (Some mod_node, st))"

text \<open>The fallback module name of a class record without module attribution.\<close>

definition fallback_module :: "string option \<Rightarrow> string" where
  "fallback_module class_str =
     (if class_str = Some ''Flask'' \<or> class_str = Some ''App'' then ''flask.app''
      else ''UnknownModule'')"

text \<open>Step 3, first branch: \<^verbatim>\<open>item_type == "class"\<close>.\<close>

definition handle_class :: "json_item \<Rightarrow> rdf_node option \<Rightarrow> rdf_node option \<Rightarrow> kg_state \<Rightarrow> kg_state" where
  "handle_class item script_node mod_node0 st =
     (let (mod_node, st1) =
            (if \<not> truthy (j_module item)
             then handle_module script_node (fallback_module (j_class item)) st
             else (mod_node0, st));
          class_node = uri_encode (CODE ''Class'') (j_id item);
          st2 = graph_add (class_node, RDF_type, CODE ''Class'') st1;
          st3 = graph_add (class_node, RDFS_label, string_literal (j_id item)) st2;
          st4 = st3\<lparr>class_map := (class_map st3)(j_id item \<mapsto> class_node)\<rparr>
      in if node_truthy mod_node
         then graph_add (the mod_node, CODE ''include'', class_node) st4
         else st4)"

text \<open>Step 3, second branch: \<^verbatim>\<open>item_type in ("function", "member_function")\<close>.\<close>

definition handle_api :: "json_item \<Rightarrow> rdf_node option \<Rightarrow> kg_state \<Rightarrow> kg_state" where
  "handle_api item mod_node st =
     (let api_node = uri_encode (CODE ''API'') (j_id item);
          st1 = graph_add (api_node, RDF_type, CODE ''API'') st;
          st2 = graph_add (api_node, RDFS_label, string_literal (j_id item)) st1;
          st3 = st2\<lparr>api_map := (api_map st2)(j_id item \<mapsto> api_node)\<rparr>
      in if j_type item = ''member_function'' \<and> truthy (j_class item) then
           (case class_map st3 (the (j_class item)) of
              None \<Rightarrow>
                (let parent_class_node = uri_encode (CODE ''Class'') (the (j_class item));
                     st4 = graph_add (parent_class_node, RDF_type, CODE ''Class'') st3;
                     st5 = graph_add (parent_class_node, RDFS_label,
                                      string_literal (the (j_class item))) st4;
                     st6 = st5\<lparr>class_map := (class_map st5)(the (j_class item) \<mapsto> parent_class_node)\<rparr>
                 in graph_add (parent_class_node, CODE ''hasMethod'', api_node) st6)
            | Some parent_class_node \<Rightarrow>
                graph_add (parent_class_node, CODE ''hasMethod'', api_node) st3)
         else if node_truthy mod_node
              then graph_add (the mod_node, CODE ''hasMethod'', api_node) st3
              else st3)"

text \<open>Step 4: the Description node of a record with a non-empty \<^verbatim>\<open>doc\<close>.\<close>

definition handle_doc :: "json_item \<Rightarrow> kg_state \<Rightarrow> kg_state" where
  "handle_doc item st =
     (if truthy (j_doc item) then
        (let desc_node = uri_encode (CODE ''Description'') (j_id item @ ''_desc'');
             st1 = graph_add (desc_node, RDF_type, CODE ''Description'') st;
             st2 = graph_add (desc_node, RDFS_label,
                              string_literal (take 200 (the (j_doc item)))) st1
         in if j_type item = ''function'' \<or> j_type item = ''member_function'' then
              (if node_truthy (api_map st2 (j_id item))
               then graph_add (the (api_map st2 (j_id item)), CODE ''hasDescription'', desc_node) st2
               else st2)
            else if j_type item = ''class'' then
              (if node_truthy (class_map st2 (j_id item))
               then graph_add (the (class_map st2 (j_id item)), CODE ''hasDescription'', desc_node) st2
               else st2)
            else st2)
      else st)"

text \<open>Step 5: the ReturnValue node.\<close>

definition handle_returns :: "json_item \<Rightarrow> kg_state \<Rightarrow> kg_state" where
  "handle_returns item st =
     (if truthy (j_returns_doc item)
         \<and> (j_type item = ''function'' \<or> j_type item = ''member_function'') then
        (let ret_node = uri_encode (CODE ''ReturnValue'') (j_id item @ ''_ret'');
             st1 = graph_add (ret_node, RDF_type, CODE ''ReturnValue'') st;
             st2 = graph_add (ret_node, RDFS_label, string_literal (the (j_returns_doc item))) st1
         in if node_truthy (api_map st2 (j_id item))
            then graph_add (the (api_map st2 (j_id item)), CODE ''hasReturnValue'', ret_node) st2
            else st2)
      else st)"

text \<open>Step 6: one Parameter node for each entry of \<^verbatim>\<open>parameters\<close>.\<close>

definition py_bool_text :: "bool \<Rightarrow> string" where
  "py_bool_text b = (if b then ''True'' else ''False'')"

text \<open>
  \<^verbatim>\<open>real_param_name = p_info.get("name", p_name)\<close> as the f-strings print it, which is
  its only use: the dictionary key when the entry has no \<^verbatim>\<open>name\<close>, and \<open>None\<close> when
  the \<^verbatim>\<open>name\<close> is \<^verbatim>\<open>null\<close>.
\<close>

definition real_param_name :: "string \<times> param_info \<Rightarrow> string" where
  "real_param_name entry =
     (case p_name (snd entry) of
        Key_Missing \<Rightarrow> fst entry
      | Json_Null \<Rightarrow> ''None''
      | Json_Val n \<Rightarrow> n)"

text \<open>\<^verbatim>\<open>p_info.get('is_optional', False)\<close> as the f-string of the label prints it.\<close>

definition is_optional_text :: "param_info \<Rightarrow> string" where
  "is_optional_text p_info =
     (case p_is_optional p_info of
        Key_Missing \<Rightarrow> py_bool_text False
      | Json_Null \<Rightarrow> ''None''
      | Json_Val b \<Rightarrow> py_bool_text b)"

definition handle_param :: "json_item \<Rightarrow> rdf_node \<Rightarrow> string \<times> param_info \<Rightarrow> kg_state \<Rightarrow> kg_state" where
  "handle_param item api_node entry st =
     (let param_node = uri_encode (CODE ''Parameter'') (j_id item @ ''_'' @ real_param_name entry);
          st1 = graph_add (param_node, RDF_type, CODE ''Parameter'') st;
          label_str = real_param_name entry @ '' (optional=''
             @ is_optional_text (snd entry) @ '')'';
          st2 = graph_add (param_node, RDFS_label, string_literal label_str) st1
      in graph_add (api_node, CODE ''hasParameter'', param_node) st2)"

definition handle_params :: "json_item \<Rightarrow> kg_state \<Rightarrow> kg_state" where
  "handle_params item st =
     (if j_parameters item \<noteq> []
         \<and> (j_type item = ''function'' \<or> j_type item = ''member_function'') then
        (if node_truthy (api_map st (j_id item))
         then fold (handle_param item (the (api_map st (j_id item)))) (j_parameters item) st
         else st)
      else st)"

text \<open>The whole body of \<^verbatim>\<open>for item in data_list\<close>.\<close>

definition process_item :: "rdf_node \<Rightarrow> json_item \<Rightarrow> kg_state \<Rightarrow> kg_state" where
  "process_item library_node item st =
     (let (script_node, st1) = handle_script library_node (j_file item) st;
          (mod_node, st2) =
            (if truthy (j_module item)
             then handle_module script_node (the (j_module item)) st1
             else (None, st1));
          st3 =
            (if j_type item = ''class'' then handle_class item script_node mod_node st2
             else if j_type item = ''function'' \<or> j_type item = ''member_function''
                  then handle_api item mod_node st2
                  else st2);
          st4 = handle_doc item st3;
          st5 = handle_returns item st4
      in handle_params item st5)"

text \<open>
  \<^verbatim>\<open>build_knowledge_graph(json_data, library_name)\<close>; the result holds the graph and
  the tables that the source returns as \<^verbatim>\<open>node_dicts\<close>.
\<close>

definition build_knowledge_graph :: "json_item list \<Rightarrow> string \<Rightarrow> kg_state" where
  "build_knowledge_graph data_list library_name =
     fold (process_item (library_node_of library_name)) data_list (initial_state library_name)"

subsection \<open>The property-graph store as \<^verbatim>\<open>py2neo\<close> presents it\<close>

text \<open>
  The store is external to the repository; the model keeps what the calls of
  \<^verbatim>\<open>write_to_neo4j_py2neo\<close> can observe. A node has one label and a list of
  properties, and it is identified by its position in the store (its internal id), never
  by its properties. A relationship joins two node ids under a type.
  \<^item> \<^verbatim>\<open>graph.nodes.match(label, key=v).first()\<close> is the first node with that label
    and property value, if any (\<open>find_node\<close>).
  \<^item> \<^verbatim>\<open>graph.create(node)\<close> adds a new node (\<open>create_node\<close>).
  \<^item> \<^verbatim>\<open>graph.merge(node, label, key)\<close> looks for a node with that label and the
    same value of the key property; if there is one its properties are overwritten with
    those of \<^verbatim>\<open>node\<close>, otherwise the node is created (\<open>merge_node\<close>). Either way the
    Python object is bound to the stored node afterwards: the model returns its id.
  \<^item> \<^verbatim>\<open>graph.merge(rel)\<close> for a relationship between two bound nodes creates it
    unless a relationship of that type between the two nodes exists (\<open>merge_rel\<close>).
\<close>

datatype pval = PStr string | PBool bool

record neo_node =
  node_label :: string
  node_props :: "(string \<times> pval) list"

record neo_store =
  st_nodes :: "neo_node list"
  st_rels :: "(nat \<times> string \<times> nat) set"

definition empty_store :: neo_store where
  "empty_store = \<lparr> st_nodes = [], st_rels = {} \<rparr>"

fun find_node :: "string \<Rightarrow> string \<Rightarrow> pval \<Rightarrow> neo_node list \<Rightarrow> nat option" where
  "find_node label k v [] = None"
| "find_node label k v (n # ns) =
     (if node_label n = label \<and> map_of (node_props n) k = Some v then Some 0
      else map_option Suc (find_node label k v ns))"

definition create_node :: "neo_node \<Rightarrow> neo_store \<Rightarrow> nat \<times> neo_store" where
  "create_node node g = (length (st_nodes g), g\<lparr>st_nodes := st_nodes g @ [node]\<rparr>)"

definition merge_node :: "neo_node \<Rightarrow> string \<Rightarrow> string \<Rightarrow> neo_store \<Rightarrow> nat \<times> neo_store" where
  "merge_node node primary_label primary_key g =
     (case map_of (node_props node) primary_key of
        None \<Rightarrow> create_node node g
      | Some v \<Rightarrow>
          (case find_node primary_label primary_key v (st_nodes g) of
             None \<Rightarrow> create_node node g
           | Some i \<Rightarrow>
               (i, g\<lparr>st_nodes := (st_nodes g)[i := (st_nodes g ! i)\<lparr>node_props := node_props node\<rparr>]\<rparr>)))"

definition merge_rel :: "nat \<times> string \<times> nat \<Rightarrow> neo_store \<Rightarrow> neo_store" where
  "merge_rel r g = g\<lparr>st_rels := insert r (st_rels g)\<rparr>"

text \<open>\<^verbatim>\<open>Node(label, name=n, **extra)\<close>.\<close>

definition Node :: "string \<Rightarrow> string \<Rightarrow> (string \<times> pval) list \<Rightarrow> neo_node" where
  "Node label n extra = \<lparr> node_label = label, node_props = (''name'', PStr n) # extra \<rparr>"

subsection \<open>\<^verbatim>\<open>write_to_neo4j_py2neo\<close>\<close>

text \<open>
  In the loop body a variable such as \<^verbatim>\<open>script_node\<close> holds \<^verbatim>\<open>None\<close> or a bound
  node; a bound node has a \<^verbatim>\<open>name\<close> property and is therefore truthy, so
  \<^verbatim>\<open>if script_node:\<close> tests for \<open>Some\<close>.
\<close>

text \<open>Step 1: the Script node and its \<^verbatim>\<open>HAS_SCRIPT\<close> relationship.\<close>

definition neo_script :: "nat \<Rightarrow> string option \<Rightarrow> neo_store \<Rightarrow> nat option \<times> neo_store" where
  "neo_script library_node file_str g =
     (if truthy file_str then
        (let (script_node, g1) = merge_node (Node ''Script'' (the file_str) []) ''Script'' ''name'' g
         in (Some script_node, merge_rel (library_node, ''HAS_SCRIPT'', script_node) g1))
      else (None, g))"

text \<open>
  The Module node of a truthy module name and its \<^verbatim>\<open>CONTAIN_MODULE\<close> relationship;
  the source has this block in step 2 and again in the fallback of step 3.
\<close>

definition neo_module :: "nat option \<Rightarrow> string \<Rightarrow> neo_store \<Rightarrow> nat option \<times> neo_store" where
  "neo_module script_node module_str g =
     (let (module_node, g1) = merge_node (Node ''Module'' module_str []) ''Module'' ''name'' g
      in (Some module_node,
          (case script_node of
             Some s \<Rightarrow> merge_rel (s, ''CONTAIN_MODULE'', module_node) g1
           | None \<Rightarrow> g1)))"

text \<open>The Description node of a record with a non-empty \<^verbatim>\<open>doc\<close>, attached to \<open>owner\<close>.\<close>

definition neo_doc :: "json_item \<Rightarrow> nat \<Rightarrow> neo_store \<Rightarrow> neo_store" where
  "neo_doc item owner g =
     (if truthy (j_doc item) then
        (let (desc_node, g1) =
               merge_node (Node ''Description'' (j_id item @ ''_desc'')
                             [(''content'', PStr (the (j_doc item)))]) ''Description'' ''name'' g
         in merge_rel (owner, ''HAS_DESCRIPTION'', desc_node) g1)
      else g)"

text \<open>Step 3, first branch: \<^verbatim>\<open>item_type == "class"\<close>.\<close>

definition neo_class :: "json_item \<Rightarrow> nat option \<Rightarrow> nat option \<Rightarrow> neo_store \<Rightarrow> neo_store" where
  "neo_class item script_node module_node0 g =
     (let (module_node, g1) =
            (if \<not> truthy (j_module item)
             then neo_module script_node (fallback_module (j_class item)) g
             else (module_node0, g));
          (class_node, g2) = merge_node (Node ''Class'' (j_id item) []) ''Class'' ''name'' g1;
          g3 = (case module_node of
                  Some m \<Rightarrow> merge_rel (m, ''INCLUDE'', class_node) g2
                | None \<Rightarrow> g2)
      in neo_doc item class_node g3)"

text \<open>The ReturnValue node and the Parameter nodes of an API.\<close>

definition neo_returns :: "json_item \<Rightarrow> nat \<Rightarrow> neo_store \<Rightarrow> neo_store" where
  "neo_returns item api_node g =
     (if truthy (j_returns_doc item) then
        (let (ret_node, g1) =
               merge_node (Node ''ReturnValue'' (j_id item @ ''_ret'')
                             [(''content'', PStr (the (j_returns_doc item)))]) ''ReturnValue'' ''name'' g
         in merge_rel (api_node, ''HAS_RETURN_VALUE'', ret_node) g1)
      else g)"

text \<open>
  The keyword argument \<^verbatim>\<open>optional=p_info.get("is_optional", False)\<close> of the Parameter
  node. A node of \<^verbatim>\<open>py2neo\<close> keeps no property whose value is \<^verbatim>\<open>None\<close>, so a
  \<^verbatim>\<open>null\<close> flag leaves the node without the property.
\<close>

definition optional_props :: "param_info \<Rightarrow> (string \<times> pval) list" where
  "optional_props p_info =
     (case p_is_optional p_info of
        Key_Missing \<Rightarrow> [(''optional'', PBool False)]
      | Json_Null \<Rightarrow> []
      | Json_Val b \<Rightarrow> [(''optional'', PBool b)])"

definition neo_param :: "json_item \<Rightarrow> nat \<Rightarrow> string \<times> param_info \<Rightarrow> neo_store \<Rightarrow> neo_store" where
  "neo_param item api_node entry g =
     (let (param_node, g1) =
            merge_node (Node ''Parameter'' (j_id item @ ''_'' @ real_param_name entry)
                          (optional_props (snd entry)))
              ''Parameter'' ''name'' g
      in merge_rel (api_node, ''HAS_PARAMETER'', param_node) g1)"

text \<open>Step 3, second branch: \<^verbatim>\<open>item_type in ("function", "member_function")\<close>.\<close>

definition neo_api :: "json_item \<Rightarrow> nat option \<Rightarrow> neo_store \<Rightarrow> neo_store" where
  "neo_api item module_node g =
     (let (api_node, g1) = merge_node (Node ''API'' (j_id item) []) ''API'' ''name'' g;
          g2 = (if j_type item = ''member_function'' \<and> truthy (j_class item) then
                  (let (parent_class_node, ga) =
                         merge_node (Node ''Class'' (the (j_class item)) []) ''Class'' ''name'' g1
                   in merge_rel (parent_class_node, ''HAS_METHOD'', api_node) ga)
                else
                  (case module_node of
                     Some m \<Rightarrow> merge_rel (m, ''HAS_METHOD'', api_node) g1
                   | None \<Rightarrow> g1));
          g3 = neo_doc item api_node g2;
          g4 = neo_returns item api_node g3
      in fold (neo_param item api_node) (j_parameters item) g4)"

text \<open>The whole body of \<^verbatim>\<open>for item in data_list\<close>.\<close>

definition neo_item :: "nat \<Rightarrow> json_item \<Rightarrow> neo_store \<Rightarrow> neo_store" where
  "neo_item library_node item g =
     (let (script_node, g1) = neo_script library_node (j_file item) g;
          (module_node, g2) =
            (if truthy (j_module item)
             then neo_module script_node (the (j_module item)) g1
             else (None, g1))
      in if j_type item = ''class'' then neo_class item script_node module_node g2
         else if j_type item = ''function'' \<or> j_type item = ''member_function''
              then neo_api item module_node g2
              else g2)"

text \<open>
  \<^verbatim>\<open>write_to_neo4j_py2neo\<close>, from the lookup of the Library node to the end of the
  loop; the last argument is the content of the store before the call.
\<close>

definition write_to_neo4j_py2neo :: "string \<Rightarrow> json_item list \<Rightarrow> neo_store \<Rightarrow> neo_store" where
  "write_to_neo4j_py2neo library_name data_list g =
     (let (library_node, g1) =
            (case find_node ''Library'' ''name'' (PStr library_name) (st_nodes g) of
               Some existing_library \<Rightarrow> (existing_library, g)
             | None \<Rightarrow> create_node (Node ''Library'' library_name []) g)
      in fold (neo_item library_node) data_list g1)"

section \<open>Notions used to state the properties\<close>

text \<open>
  The characters that \<open>safe_id\<close> cannot tell apart: the four it replaces and the
  underscore it replaces them with.
\<close>

definition separators :: "char set" where
  "separators = {CHR 0x5C, CHR ''/'', CHR '' '', CHR ''.'', CHR ''_''}"

text \<open>What \<open>safe_id\<close> does to one character.\<close>

definition sanitise_char :: "char \<Rightarrow> char" where
  "sanitise_char c =
     (if c = CHR 0x5C \<or> c = CHR ''/'' \<or> c = CHR '' '' \<or> c = CHR ''.'' then CHR ''_'' else c)"

text \<open>
  The names one \<^verbatim>\<open>from module import names\<close> statement contributes: the first
  segment of the module when there is one and it is not empty, and the name (not the
  \<^verbatim>\<open>asname\<close>) of every alias.
\<close>

definition from_import_symbols :: "string option \<Rightarrow> import_alias list \<Rightarrow> string set" where
  "from_import_symbols module names =
     (if truthy module \<and> first_segment (the module) \<noteq> [] then {first_segment (the module)} else {})
       \<union> alias_name ` set names"

text \<open>
  A heap is well formed when every module reference of every module points into it, as
  every reference of a Python object graph does.
\<close>

definition member_ok :: "heap \<Rightarrow> string \<times> py_member \<Rightarrow> bool" where
  "member_ok h nm = (case snd nm of Mem_Module i \<Rightarrow> i < length h | _ \<Rightarrow> True)"

definition wf_heap :: "heap \<Rightarrow> bool" where
  "wf_heap h = list_all (\<lambda>m. list_all (member_ok h) (py_members m)) h"

text \<open>The module names that can enter \<open>visited\<close>.\<close>

definition heap_names :: "heap \<Rightarrow> string set" where
  "heap_names h = name_or ''unknown'' ` set h"

text \<open>
  The same object graph with every signature and every source retrieval failing: what
  \<^verbatim>\<open>inspect\<close> shows of each module, class, function and method has \<open>insp_source\<close>
  and \<open>insp_signature\<close> set to \<open>None\<close>, and nothing else is changed.
\<close>

definition fail_insp :: "introspection \<Rightarrow> introspection" where
  "fail_insp obj = obj\<lparr>insp_source := None, insp_signature := None\<rparr>"

fun fail_attr :: "py_attr \<Rightarrow> py_attr" where
  "fail_attr (Attr_Function f) = Attr_Function (fail_insp f)"
| "fail_attr (Attr_Method f) = Attr_Method (fail_insp f)"
| "fail_attr Attr_Other = Attr_Other"

definition fail_class :: "py_class \<Rightarrow> py_class" where
  "fail_class c =
     c\<lparr>cls_insp := fail_insp (cls_insp c),
       cls_members := map (\<lambda>(n, a). (n, fail_attr a)) (cls_members c)\<rparr>"

fun fail_member :: "py_member \<Rightarrow> py_member" where
  "fail_member (Mem_Module i) = Mem_Module i"
| "fail_member (Mem_Class c) = Mem_Class (fail_class c)"
| "fail_member (Mem_Function f) = Mem_Function (fail_insp f)"
| "fail_member Mem_Other = Mem_Other"

definition fail_module :: "py_module \<Rightarrow> py_module" where
  "fail_module m =
     m\<lparr>py_insp := fail_insp (py_insp m),
       py_members := map (\<lambda>(n, x). (n, fail_member x)) (py_members m)\<rparr>"

definition fail_heap :: "heap \<Rightarrow> heap" where
  "fail_heap h = map fail_module h"

text \<open>A record with the three entries that depend on those retrievals at their defaults.\<close>

definition fail_item :: "api_item \<Rightarrow> api_item" where
  "fail_item x = x\<lparr>source_code := None, item_signature := ''()'', parameters := []\<rparr>"

text \<open>The result of a traversal with \<open>fail_item\<close> applied to every record.\<close>

definition fail_result :: "(api_item list \<times> string set) option \<Rightarrow> (api_item list \<times> string set) option" where
  "fail_result r = map_option (\<lambda>(rs, v). (map fail_item rs, v)) r"

text \<open>
  A small package used for the concrete instances below. Module \<open>foo\<close> exposes the class
  \<open>Widget\<close> (whose method \<open>run\<close> has neither a retrievable source nor a signature), the
  module \<open>foobar\<close>, the function \<open>helper\<close> and the module \<open>os\<close>; \<open>foobar\<close> refers back
  to \<open>foo\<close>. Members are in the order of \<^verbatim>\<open>inspect.getmembers\<close>.
\<close>

definition bare_info :: "string option \<Rightarrow> introspection" where
  "bare_info m =
     \<lparr> insp_doc = None, insp_source = None, insp_signature = None,
       insp_module = m, insp_file = None \<rparr>"

definition helper_info :: introspection where
  "helper_info =
     \<lparr> insp_doc = Some ''Help the caller.'',
       insp_source = Some ''def helper(x, y=1): return x'',
       insp_signature = Some (''(x, y=1)'', [(''x'', False), (''y'', True)]),
       insp_module = Some ''foo'', insp_file = Some ''foo/__init__.py'' \<rparr>"

definition widget_class :: py_class where
  "widget_class =
     \<lparr> cls_name = ''Widget'', cls_truthy = True, cls_insp = bare_info (Some ''foo''),
       cls_members = [(''run'', Attr_Function (bare_info (Some ''foo''))), (''size'', Attr_Other)] \<rparr>"

definition example_heap :: heap where
  "example_heap =
     [\<lparr> py_name = Some ''foo'', py_insp = bare_info None,
        py_members = [(''Widget'', Mem_Class widget_class), (''bar'', Mem_Module 1),
                      (''helper'', Mem_Function helper_info), (''os'', Mem_Module 2)] \<rparr>,
      \<lparr> py_name = Some ''foobar'', py_insp = bare_info None,
        py_members = [(''foo'', Mem_Module 0)] \<rparr>,
      \<lparr> py_name = Some ''os'', py_insp = bare_info None, py_members = [] \<rparr>]"

definition example_records :: "api_item list" where
  "example_records =
     [build_api_item ''foo'' Is_Module (bare_info None) None,
      build_api_item ''foo.Widget'' Is_Class (bare_info (Some ''foo'')) None,
      build_api_item ''foo.Widget.run'' Is_Function (bare_info (Some ''foo'')) (Some widget_class),
      build_api_item ''foobar'' Is_Module (bare_info None) None,
      build_api_item ''foo.helper'' Is_Function helper_info None]"

text \<open>The entry-point file \<^verbatim>\<open>from .core import Widget as W\<close>.\<close>

definition example_body :: "ast_stmt list" where
  "example_body = [ImportFrom (Some ''core'') [Import_Alias ''Widget'' (Some ''W'')] 1]"

text \<open>The predicate of a triple.\<close>

definition pred_of :: "triple \<Rightarrow> rdf_node" where
  "pred_of t = fst (snd t)"

text \<open>
  The invariant of the loop of \<^verbatim>\<open>build_knowledge_graph\<close> that the module fallback
  relies on: a name in \<^verbatim>\<open>module_map\<close> is mapped to the node made from that name, and
  that node is typed as a Module in the graph.
\<close>

definition module_map_ok :: "kg_state \<Rightarrow> bool" where
  "module_map_ok st =
     (\<forall>k n. module_map st k = Some n \<longrightarrow>
        n = uri_encode (CODE ''Module'') k \<and> (n, RDF_type, CODE ''Module'') \<in> graph st)"

text \<open>Records for the concrete instances: all optional entries absent.\<close>

definition fresh_item :: "string \<Rightarrow> string \<Rightarrow> json_item" where
  "fresh_item kind ident =
     \<lparr> j_file = None, j_module = None, j_class = None, j_doc = None, j_returns_doc = None,
       j_parameters = [], j_type = kind, j_id = ident \<rparr>"

text \<open>
  What the extractor writes for the class \<open>Flask\<close> of module \<open>flask\<close> and for its
  method \<open>run\<close>.
\<close>

definition flask_records :: "json_item list" where
  "flask_records =
     [(fresh_item ''class'' ''flask.Flask'')\<lparr>j_module := Some ''flask.app''\<rparr>,
      (fresh_item ''member_function'' ''flask.Flask.run'')
        \<lparr>j_module := Some ''flask.app'', j_class := Some ''Flask''\<rparr>]"

text \<open>The \<open>hasDescription\<close> triples that step 4 can add for a record: only for a class,
  a function or a member function with a non-empty \<^verbatim>\<open>doc\<close>, and only towards the
  record's own Description node.\<close>

definition description_edges :: "json_item \<Rightarrow> triple set" where
  "description_edges item =
     (if truthy (j_doc item)
         \<and> (j_type item = ''function'' \<or> j_type item = ''member_function'' \<or> j_type item = ''class'')
      then {t. pred_of t = CODE ''hasDescription''
               \<and> snd (snd t) = uri_encode (CODE ''Description'') (j_id item @ ''_desc'')}
      else {})"

text \<open>
  A module record and a function record with the same identifier, as the extractor writes
  them for a package \<open>pkg\<close> whose module \<open>pkg.util\<close> is reachable under another name and
  whose attribute \<open>util\<close> is a function.
\<close>

definition util_records :: "json_item list" where
  "util_records =
     [(fresh_item ''module'' ''pkg.util'')\<lparr>j_doc := Some ''Utilities.''\<rparr>,
      (fresh_item ''function'' ''pkg.util'')\<lparr>j_doc := Some ''Do it.''\<rparr>]"

text \<open>The states between the steps of the loop body of \<^verbatim>\<open>build_knowledge_graph\<close>:
  after step 1, after step 2 (with the module node it leaves in \<^verbatim>\<open>mod_node\<close>), and
  after step 3.\<close>

definition after_script :: "rdf_node \<Rightarrow> json_item \<Rightarrow> kg_state \<Rightarrow> kg_state" where
  "after_script l item st = snd (handle_script l (j_file item) st)"

definition after_module :: "rdf_node \<Rightarrow> json_item \<Rightarrow> kg_state \<Rightarrow> kg_state" where
  "after_module l item st =
     (if truthy (j_module item)
      then snd (handle_module (fst (handle_script l (j_file item) st)) (the (j_module item))
                  (after_script l item st))
      else after_script l item st)"

definition mod_node_of :: "rdf_node \<Rightarrow> json_item \<Rightarrow> kg_state \<Rightarrow> rdf_node option" where
  "mod_node_of l item st =
     (if truthy (j_module item)
      then fst (handle_module (fst (handle_script l (j_file item) st)) (the (j_module item))
                  (after_script l item st))
      else None)"

definition after_kind :: "rdf_node \<Rightarrow> json_item \<Rightarrow> kg_state \<Rightarrow> kg_state" where
  "after_kind l item st =
     (if j_type item = ''class''
      then handle_class item (fst (handle_script l (j_file item) st)) (mod_node_of l item st)
             (after_module l item st)
      else if j_type item = ''function'' \<or> j_type item = ''member_function''
           then handle_api item (mod_node_of l item st) (after_module l item st)
           else after_module l item st)"

text \<open>A document with one documented module record.\<close>

definition module_only :: "json_item list" where
  "module_only = [(fresh_item ''module'' ''pkg.util'')\<lparr>j_doc := Some ''Utilities.''\<rparr>]"

text \<open>
  The store seen by natural key. Every node that \<^verbatim>\<open>write_to_neo4j_py2neo\<close> writes has
  a label and a \<^verbatim>\<open>name\<close>; a keyed store lists these keys in the order in which the
  nodes were created, gives the properties of each key, and holds the relationships
  between keys. \<open>store_of\<close> is the store it stands for: the node of the \<open>i\<close>-th key has
  the internal id \<open>i\<close>.
\<close>

type_synonym nkey = "string \<times> string"

record keyed_store =
  k_keys :: "nkey list"
  k_props :: "nkey \<Rightarrow> (string \<times> pval) list"
  k_rels :: "(nkey \<times> string \<times> nkey) set"

fun index_of :: "'a list \<Rightarrow> 'a \<Rightarrow> nat" where
  "index_of [] k = 0"
| "index_of (x # xs) k = (if x = k then 0 else Suc (index_of xs k))"

definition node_of :: "keyed_store \<Rightarrow> nkey \<Rightarrow> neo_node" where
  "node_of A k = \<lparr> node_label = fst k, node_props = k_props A k \<rparr>"

definition store_of :: "keyed_store \<Rightarrow> neo_store" where
  "store_of A =
     \<lparr> st_nodes = map (node_of A) (k_keys A),
       st_rels = (\<lambda>(k1, t, k2). (index_of (k_keys A) k1, t, index_of (k_keys A) k2)) ` k_rels A \<rparr>"

definition empty_keyed :: keyed_store where
  "empty_keyed = \<lparr> k_keys = [], k_props = (\<lambda>k. []), k_rels = {} \<rparr>"

text \<open>
  A keyed store is consistent when no key occurs twice, the properties of every key hold
  its name, and relationships join keys of the store.
\<close>

definition keyed_ok :: "keyed_store \<Rightarrow> bool" where
  "keyed_ok A =
     (distinct (k_keys A)
      \<and> (\<forall>k \<in> set (k_keys A). map_of (k_props A k) ''name'' = Some (PStr (snd k)))
      \<and> (\<forall>r \<in> k_rels A. fst r \<in> set (k_keys A) \<and> snd (snd r) \<in> set (k_keys A)))"

text \<open>
  The three kinds of write: merge a node by key (properties overwritten), merge a
  relationship between two keys, and create a bare node unless its key exists.
\<close>

datatype key_op =
    Merge_Node nkey "(string \<times> pval) list"
  | Merge_Rel nkey string nkey
  | Ensure_Node nkey

definition add_key :: "nkey \<Rightarrow> nkey list \<Rightarrow> nkey list" where
  "add_key k ks = (if k \<in> set ks then ks else ks @ [k])"

fun key_exec :: "key_op \<Rightarrow> keyed_store \<Rightarrow> keyed_store" where
  "key_exec (Merge_Node k extra) A =
     A\<lparr>k_keys := add_key k (k_keys A),
       k_props := (k_props A)(k := (''name'', PStr (snd k)) # extra)\<rparr>"
| "key_exec (Merge_Rel k1 t k2) A = A\<lparr>k_rels := insert (k1, t, k2) (k_rels A)\<rparr>"
| "key_exec (Ensure_Node k) A =
     (if k \<in> set (k_keys A) then A
      else A\<lparr>k_keys := k_keys A @ [k], k_props := (k_props A)(k := [(''name'', PStr (snd k))])\<rparr>)"

text \<open>The parts of a list of writes that act on the keys, the properties and the relationships.\<close>

fun op_key :: "key_op \<Rightarrow> nkey list" where
  "op_key (Merge_Node k extra) = [k]"
| "op_key _ = []"

fun op_update :: "key_op \<Rightarrow> (nkey \<Rightarrow> (string \<times> pval) list) \<Rightarrow> (nkey \<Rightarrow> (string \<times> pval) list)" where
  "op_update (Merge_Node k extra) f = f(k := (''name'', PStr (snd k)) # extra)"
| "op_update _ f = f"

fun op_rel :: "key_op \<Rightarrow> (nkey \<times> string \<times> nkey) set" where
  "op_rel (Merge_Rel k1 t k2) = {(k1, t, k2)}"
| "op_rel _ = {}"

fun is_merge :: "key_op \<Rightarrow> bool" where
  "is_merge (Ensure_Node k) = False"
| "is_merge _ = True"

text \<open>
  The writes of one pass of the loop body of \<^verbatim>\<open>write_to_neo4j_py2neo\<close>, by key, in
  the order of the source. They depend on the record and on the key of the Library node
  only, not on the store.
\<close>

definition script_key :: "string option \<Rightarrow> nkey option" where
  "script_key file_str = (if truthy file_str then Some (''Script'', the file_str) else None)"

definition script_ops :: "nkey \<Rightarrow> string option \<Rightarrow> key_op list" where
  "script_ops libk file_str =
     (if truthy file_str
      then [Merge_Node (''Script'', the file_str) [],
            Merge_Rel libk ''HAS_SCRIPT'' (''Script'', the file_str)]
      else [])"

definition module_ops :: "nkey option \<Rightarrow> string \<Rightarrow> key_op list" where
  "module_ops sk module_str =
     Merge_Node (''Module'', module_str) []
       # (case sk of
            Some s \<Rightarrow> [Merge_Rel s ''CONTAIN_MODULE'' (''Module'', module_str)]
          | None \<Rightarrow> [])"

definition doc_ops :: "json_item \<Rightarrow> nkey \<Rightarrow> key_op list" where
  "doc_ops item owner =
     (if truthy (j_doc item)
      then [Merge_Node (''Description'', j_id item @ ''_desc'')
              [(''content'', PStr (the (j_doc item)))],
            Merge_Rel owner ''HAS_DESCRIPTION'' (''Description'', j_id item @ ''_desc'')]
      else [])"

text \<open>The module a class record ends up in: its own, or the fallback.\<close>

definition class_module :: "json_item \<Rightarrow> string" where
  "class_module item =
     (if truthy (j_module item) then the (j_module item) else fallback_module (j_class item))"

definition class_ops :: "json_item \<Rightarrow> nkey option \<Rightarrow> key_op list" where
  "class_ops item sk =
     (if truthy (j_module item) then [] else module_ops sk (fallback_module (j_class item)))
     @ [Merge_Node (''Class'', j_id item) [],
        Merge_Rel (''Module'', class_module item) ''INCLUDE'' (''Class'', j_id item)]
     @ doc_ops item (''Class'', j_id item)"

definition returns_ops :: "json_item \<Rightarrow> key_op list" where
  "returns_ops item =
     (if truthy (j_returns_doc item)
      then [Merge_Node (''ReturnValue'', j_id item @ ''_ret'')
              [(''content'', PStr (the (j_returns_doc item)))],
            Merge_Rel (''API'', j_id item) ''HAS_RETURN_VALUE'' (''ReturnValue'', j_id item @ ''_ret'')]
      else [])"

definition param_key :: "json_item \<Rightarrow> string \<times> param_info \<Rightarrow> nkey" where
  "param_key item entry =
     (''Parameter'', j_id item @ ''_'' @ real_param_name entry)"

definition param_ops :: "json_item \<Rightarrow> string \<times> param_info \<Rightarrow> key_op list" where
  "param_ops item entry =
     [Merge_Node (param_key item entry) (optional_props (snd entry)),
      Merge_Rel (''API'', j_id item) ''HAS_PARAMETER'' (param_key item entry)]"

definition api_ops :: "json_item \<Rightarrow> nkey option \<Rightarrow> key_op list" where
  "api_ops item mk =
     Merge_Node (''API'', j_id item) []
     # (if j_type item = ''member_function'' \<and> truthy (j_class item)
        then [Merge_Node (''Class'', the (j_class item)) [],
              Merge_Rel (''Class'', the (j_class item)) ''HAS_METHOD'' (''API'', j_id item)]
        else (case mk of
                Some m \<Rightarrow> [Merge_Rel m ''HAS_METHOD'' (''API'', j_id item)]
              | None \<Rightarrow> []))
     @ doc_ops item (''API'', j_id item)
     @ returns_ops item
     @ concat (map (param_ops item) (j_parameters item))"

definition module_key :: "string option \<Rightarrow> nkey option" where
  "module_key module_str = (if truthy module_str then Some (''Module'', the module_str) else None)"

definition item_ops :: "nkey \<Rightarrow> json_item \<Rightarrow> key_op list" where
  "item_ops libk item =
     script_ops libk (j_file item)
     @ (if truthy (j_module item)
        then module_ops (script_key (j_file item)) (the (j_module item)) else [])
     @ (if j_type item = ''class'' then class_ops item (script_key (j_file item))
        else if j_type item = ''function'' \<or> j_type item = ''member_function''
             then api_ops item (module_key (j_module item))
             else [])"

definition data_ops :: "string \<Rightarrow> json_item list \<Rightarrow> key_op list" where
  "data_ops library_name data_list =
     concat (map (item_ops (''Library'', library_name)) data_list)"

text \<open>A later keyed store of the same run: consistent, with the earlier keys in place.\<close>

definition later_store :: "keyed_store \<Rightarrow> keyed_store \<Rightarrow> bool" where
  "later_store A B = (keyed_ok B \<and> prefix (k_keys A) (k_keys B))"

text \<open>
  The record of the class \<open>Flask\<close> of module \<open>flask\<close> when its \<^verbatim>\<open>__module__\<close> cannot
  be read: no \<^verbatim>\<open>module\<close> and, as on every class record that the extractor writes, no
  \<^verbatim>\<open>class\<close> entry.
\<close>

definition unattributed_flask :: "json_item list" where
  "unattributed_flask = [fresh_item ''class'' ''flask.Flask'']"

section \<open>Properties of identifier sanitisation\<close>

lemma str_replace_map: "str_replace old [n] s = map (\<lambda>c. if c = old then n else c) s"
  by (induction s) auto

lemma safe_id_map: "safe_id s = map sanitise_char s"
  by (auto simp: safe_id_def str_replace_map sanitise_char_def)

lemma sanitise_char_eq:
  "sanitise_char x = sanitise_char y \<longleftrightarrow> x = y \<or> (x \<in> separators \<and> y \<in> separators)"
  by (auto simp: sanitise_char_def separators_def)

lemma map_eq_list_all2: "map f xs = map f ys \<longleftrightarrow> list_all2 (\<lambda>x y. f x = f y) xs ys"
proof (induction xs arbitrary: ys)
  case Nil
  then show ?case by auto
next
  case (Cons x xs)
  then show ?case by (cases ys) auto
qed

text \<open>
  C7, as stated, fails: the API identifiers \<open>pkg.a_b\<close> (a function \<open>a_b\<close> of module
  \<open>pkg\<close>) and \<open>pkg.a.b\<close> (a method \<open>b\<close> of class \<open>a\<close>) are distinct keys of the same
  category and get the same node identifier.
\<close>

theorem uri_encode_collision:
  "''pkg.a_b'' \<noteq> ''pkg.a.b'' \<and> uri_encode (CODE ''API'') ''pkg.a_b'' = uri_encode (CODE ''API'') ''pkg.a.b''"
  by (simp add: uri_encode_def safe_id_def)

text \<open>
  C7, amended: within one category (one namespace prefix), two keys get the same node
  identifier exactly when they have the same length and, at every position, either agree
  or both hold one of backslash, slash, space, dot and underscore. Being a function of the
  key, the identifier is deterministic.
\<close>

theorem uri_encode_eq_iff:
  "uri_encode base_ns k1 = uri_encode base_ns k2 \<longleftrightarrow>
     list_all2 (\<lambda>x y. x = y \<or> (x \<in> separators \<and> y \<in> separators)) k1 k2"
  by (simp add: uri_encode_def safe_id_map map_eq_list_all2 sanitise_char_eq)

section \<open>Properties of \<^verbatim>\<open>parse_init_file\<close>\<close>

lemma fold_insert_image: "fold (\<lambda>a s. insert (f a) s) xs S = S \<union> f ` set xs"
  by (induction xs arbitrary: S) auto

lemma add_str_elt_mono: "S \<subseteq> add_str_elt e S"
  by (cases e) auto

lemma fold_add_str_elt_mono: "S \<subseteq> fold add_str_elt es S"
proof (induction es arbitrary: S)
  case Nil
  then show ?case by simp
next
  case (Cons e es)
  have "S \<subseteq> add_str_elt e S" by (rule add_str_elt_mono)
  also have "\<dots> \<subseteq> fold add_str_elt es (add_str_elt e S)" by (rule Cons.IH)
  finally show ?case by simp
qed

lemma fold_add_str_elt_from_empty: "fold add_str_elt es {} \<subseteq> fold add_str_elt es S"
proof (induction es rule: rev_induct)
  case Nil
  then show ?case by simp
next
  case (snoc e es)
  then show ?case by (cases e) auto
qed

lemma visit_stmt_mono: "S \<subseteq> visit_stmt s S"
proof (cases s)
  case (Import names)
  then show ?thesis by (auto simp: fold_insert_image)
next
  case (ImportFrom m names l)
  then show ?thesis by (auto simp: fold_insert_image Let_def)
next
  case (Assign targets v)
  then show ?thesis using fold_add_str_elt_mono by (auto split: ast_expr.splits)
next
  case Other_Stmt
  then show ?thesis by simp
qed

lemma visit_stmt_from_empty: "visit_stmt s {} \<subseteq> visit_stmt s S"
proof (cases s)
  case (Import names)
  then show ?thesis by (auto simp: fold_insert_image)
next
  case (ImportFrom m names l)
  then show ?thesis by (auto simp: fold_insert_image Let_def)
next
  case (Assign targets v)
  then show ?thesis using fold_add_str_elt_from_empty by (auto split: ast_expr.splits)
next
  case Other_Stmt
  then show ?thesis by simp
qed

lemma fold_visit_stmt_mono: "S \<subseteq> fold visit_stmt body S"
proof (induction body arbitrary: S)
  case Nil
  then show ?case by simp
next
  case (Cons s body)
  have "S \<subseteq> visit_stmt s S" by (rule visit_stmt_mono)
  also have "\<dots> \<subseteq> fold visit_stmt body (visit_stmt s S)" by (rule Cons.IH)
  finally show ?case by simp
qed

lemma visit_from_import:
  "visit_stmt (ImportFrom module names level) S = S \<union> from_import_symbols module names"
  by (auto simp: from_import_symbols_def fold_insert_image Let_def)

lemma fold_visit_stmt_member:
  "s \<in> set body \<Longrightarrow> visit_stmt s {} \<subseteq> fold visit_stmt body S"
proof (induction body arbitrary: S)
  case Nil
  then show ?case by simp
next
  case (Cons t body)
  show ?case
  proof (cases "s = t")
    case True
    have "visit_stmt s {} \<subseteq> visit_stmt s S" by (rule visit_stmt_from_empty)
    also have "\<dots> \<subseteq> fold visit_stmt body (visit_stmt s S)" by (rule fold_visit_stmt_mono)
    finally show ?thesis using True by simp
  next
    case False
    with Cons.prems have "s \<in> set body" by simp
    then show ?thesis using Cons.IH by simp
  qed
qed

text \<open>
  C2, as stated, fails: for \<^verbatim>\<open>from .core import Widget as W\<close> the static pass adds
  the module's first segment and the original name \<open>Widget\<close>; the alias \<open>W\<close> is not
  added.
\<close>

theorem parse_init_file_ignores_asname:
  "parse_init_file [ImportFrom (Some ''core'') [Import_Alias ''Widget'' (Some ''W'')] 1]
     = {''core'', ''Widget''}
   \<and> ''W'' \<notin> parse_init_file [ImportFrom (Some ''core'') [Import_Alias ''Widget'' (Some ''W'')] 1]"
  by (simp add: parse_init_file_def truthy_def first_segment_def insert_commute)

text \<open>
  C2, amended: every top-level from-import statement of the entry-point file contributes
  the first segment of its module (when the statement names a module and that segment is
  not empty) and the original name of every imported symbol, whether or not the symbol has
  an alias; these names are in the result of the static pass, and they are all that the
  statement adds to the set.
\<close>

theorem parse_init_file_from_import:
  assumes "ImportFrom module names level \<in> set body"
  shows "from_import_symbols module names \<subseteq> parse_init_file body
       \<and> visit_stmt (ImportFrom module names level) symbols
           = symbols \<union> from_import_symbols module names"
proof -
  have "visit_stmt (ImportFrom module names level) {} \<subseteq> parse_init_file body"
    unfolding parse_init_file_def using assms by (rule fold_visit_stmt_member)
  then have "from_import_symbols module names \<subseteq> parse_init_file body"
    by (simp only: visit_from_import Un_empty_left)
  then show ?thesis by (simp only: visit_from_import simp_thms)
qed

theorem parse_init_file_from_import_witness:
  "from_import_symbols (Some ''core'') [Import_Alias ''Widget'' (Some ''W'')] = {''core'', ''Widget''}
   \<and> {''core'', ''Widget''} \<subseteq> parse_init_file
        [Import [Import_Alias ''os.path'' None],
         ImportFrom (Some ''core'') [Import_Alias ''Widget'' (Some ''W'')] 1]"
  using parse_init_file_from_import [of "Some ''core''" "[Import_Alias ''Widget'' (Some ''W'')]" 1
      "[Import [Import_Alias ''os.path'' None],
        ImportFrom (Some ''core'') [Import_Alias ''Widget'' (Some ''W'')] 1]" "{}"]
  by (simp add: from_import_symbols_def truthy_def first_segment_def insert_commute)

section \<open>Properties of the traversal\<close>

subsection \<open>Every record comes from one of the four places that build one\<close>

lemma class_member_items_pred:
  assumes "\<And>sub f. (sub, Attr_Function f) \<in> set as \<or> (sub, Attr_Method f) \<in> set as \<Longrightarrow>
             P (build_api_item (full_id @ ''.'' @ sub) Is_Function f (Some c))"
  shows "\<forall>x \<in> set (class_member_items full_id c as). P x"
  using assms
proof (induction as)
  case Nil
  then show ?case by simp
next
  case (Cons a as)
  obtain sub member where a: "a = (sub, member)" by (cases a)
  from Cons.prems have rest: "\<forall>x \<in> set (class_member_items full_id c as). P x"
    by (intro Cons.IH) auto
  show ?case
  proof (cases member)
    case (Attr_Function f)
    with a Cons.prems have "P (build_api_item (full_id @ ''.'' @ sub) Is_Function f (Some c))"
      by auto
    with rest a Attr_Function show ?thesis by simp
  next
    case (Attr_Method f)
    with a Cons.prems have "P (build_api_item (full_id @ ''.'' @ sub) Is_Function f (Some c))"
      by auto
    with rest a Attr_Method show ?thesis by simp
  next
    case Attr_Other
    with rest a show ?thesis by simp
  qed
qed

lemma traverse_members_pred:
  assumes rec: "\<And>i v rs v'. i < length h \<Longrightarrow> prefix (first_segment mn) (name_or '''' (h ! i)) \<Longrightarrow>
               recurse i v = Some (rs, v') \<Longrightarrow> \<forall>x \<in> set rs. P x"
    and cls: "\<And>name c. (name, Mem_Class c) \<in> set ms \<Longrightarrow>
               P (build_api_item (mn @ ''.'' @ name) Is_Class (cls_insp c) None)
               \<and> (\<forall>x \<in> set (class_member_items (mn @ ''.'' @ name) c (cls_members c)). P x)"
    and func: "\<And>name f. (name, Mem_Function f) \<in> set ms \<Longrightarrow>
               P (build_api_item (mn @ ''.'' @ name) Is_Function f None)"
    and res: "traverse_members recurse h mn ms v = Some (rs, v')"
  shows "\<forall>x \<in> set rs. P x"
  using cls func res
proof (induction ms arbitrary: v rs v')
  case Nil
  then show ?case by simp
next
  case (Cons a ms)
  obtain name member where a: "a = (name, member)" by (cases a)
  have IH: "\<forall>x \<in> set rs'. P x" if "traverse_members recurse h mn ms w = Some (rs', w')" for w rs' w'
    using that Cons.prems(1,2) by (intro Cons.IH [of w rs' w']) auto
  show ?case
  proof (cases member)
    case (Mem_Module i)
    show ?thesis
    proof (cases "i < length h \<and> prefix (first_segment mn) (name_or '''' (h ! i))")
      case True
      with Cons.prems(3) a Mem_Module obtain sub v1 others where
        sub: "recurse i v = Some (sub, v1)"
        and others: "traverse_members recurse h mn ms v1 = Some (others, v')"
        and rs: "rs = sub @ others"
        by (auto simp: Let_def split: option.splits)
      from True rec [OF _ _ sub] IH [OF others] rs show ?thesis by auto
    next
      case False
      with Cons.prems(3) a Mem_Module have "traverse_members recurse h mn ms v = Some (rs, v')"
        by (auto simp: Let_def split: if_splits)
      then show ?thesis by (rule IH)
    qed
  next
    case (Mem_Class c)
    with Cons.prems(3) a obtain others where
      others: "traverse_members recurse h mn ms v = Some (others, v')"
      and rs: "rs = build_api_item (mn @ ''.'' @ name) Is_Class (cls_insp c) None
                 # class_member_items (mn @ ''.'' @ name) c (cls_members c) @ others"
      by (auto simp: Let_def split: option.splits)
    from Cons.prems(1) [of name c] a Mem_Class
    have "P (build_api_item (mn @ ''.'' @ name) Is_Class (cls_insp c) None)
          \<and> (\<forall>x \<in> set (class_member_items (mn @ ''.'' @ name) c (cls_members c)). P x)"
      by simp
    with IH [OF others] rs show ?thesis by auto
  next
    case (Mem_Function f)
    with Cons.prems(3) a obtain others where
      others: "traverse_members recurse h mn ms v = Some (others, v')"
      and rs: "rs = build_api_item (mn @ ''.'' @ name) Is_Function f None # others"
      by (auto simp: Let_def split: option.splits)
    from Cons.prems(2) [of name f] a Mem_Function
    have "P (build_api_item (mn @ ''.'' @ name) Is_Function f None)" by simp
    with IH [OF others] rs show ?thesis by auto
  next
    case Mem_Other
    with Cons.prems(3) a have "traverse_members recurse h mn ms v = Some (rs, v')"
      by (simp add: Let_def)
    then show ?thesis by (rule IH)
  qed
qed

lemma traverse_module_pred:
  assumes modl: "\<And>m. m \<in> set h \<Longrightarrow> P (build_api_item (name_or ''unknown'' m) Is_Module (py_insp m) None)"
    and cls: "\<And>m name c. m \<in> set h \<Longrightarrow> (name, Mem_Class c) \<in> set (py_members m) \<Longrightarrow>
               P (build_api_item (name_or ''unknown'' m @ ''.'' @ name) Is_Class (cls_insp c) None)"
    and meth: "\<And>m name c sub f. m \<in> set h \<Longrightarrow> (name, Mem_Class c) \<in> set (py_members m) \<Longrightarrow>
               (sub, Attr_Function f) \<in> set (cls_members c) \<or> (sub, Attr_Method f) \<in> set (cls_members c) \<Longrightarrow>
               P (build_api_item (name_or ''unknown'' m @ ''.'' @ name @ ''.'' @ sub) Is_Function f (Some c))"
    and func: "\<And>m name f. m \<in> set h \<Longrightarrow> (name, Mem_Function f) \<in> set (py_members m) \<Longrightarrow>
               P (build_api_item (name_or ''unknown'' m @ ''.'' @ name) Is_Function f None)"
    and res: "traverse_module d h i v = Some (rs, v')"
  shows "\<forall>x \<in> set rs. P x"
  using res
proof (induction d arbitrary: i v rs v')
  case 0
  then show ?case by simp
next
  case (Suc d)
  from Suc.prems have i: "i < length h" by (simp split: if_splits)
  define m where "m = h ! i"
  define mn where "mn = name_or ''unknown'' m"
  from i have m_in: "m \<in> set h" by (simp add: m_def)
  show ?case
  proof (cases "mn \<in> v")
    case True
    with Suc.prems i have "rs = []" by (simp add: Let_def m_def mn_def)
    then show ?thesis by simp
  next
    case False
    with Suc.prems i obtain results where
      results: "traverse_members (traverse_module d h) h mn (py_members m) (insert mn v)
                  = Some (results, v')"
      and rs: "rs = build_api_item mn Is_Module (py_insp m) None # results"
      by (auto simp: Let_def m_def mn_def split: option.splits)
    have "\<forall>x \<in> set results. P x"
    proof (rule traverse_members_pred [OF _ _ _ results])
      show "\<forall>x \<in> set rs. P x" if "traverse_module d h i v = Some (rs, v')" for i v rs v'
        using that by (rule Suc.IH)
    next
      fix name c
      assume mem: "(name, Mem_Class c) \<in> set (py_members m)"
      have "\<forall>x \<in> set (class_member_items (mn @ ''.'' @ name) c (cls_members c)). P x"
        by (rule class_member_items_pred) (use meth [OF m_in mem] in \<open>simp add: mn_def\<close>)
      with cls [OF m_in mem]
      show "P (build_api_item (mn @ ''.'' @ name) Is_Class (cls_insp c) None)
            \<and> (\<forall>x \<in> set (class_member_items (mn @ ''.'' @ name) c (cls_members c)). P x)"
        by (simp add: mn_def)
    next
      fix name f
      assume "(name, Mem_Function f) \<in> set (py_members m)"
      from func [OF m_in this]
      show "P (build_api_item (mn @ ''.'' @ name) Is_Function f None)" by (simp add: mn_def)
    qed
    moreover from modl [OF m_in] have "P (build_api_item mn Is_Module (py_insp m) None)"
      by (simp add: mn_def)
    ultimately show ?thesis using rs by simp
  qed
qed

subsection \<open>Fields of the records\<close>

lemma from_init_build [simp]: "from_init (build_api_item full_id cat obj pc) = False"
  by (simp add: build_api_item_def Let_def)

lemma item_id_build [simp]: "item_id (build_api_item full_id cat obj pc) = full_id"
  by (simp add: build_api_item_def Let_def)

lemma item_type_build:
  "item_type (build_api_item full_id cat obj pc) =
     (case cat of Is_Class \<Rightarrow> ''class''
      | Is_Function \<Rightarrow> (if parent_truthy pc then ''member_function'' else ''function'')
      | Is_Module \<Rightarrow> ''module'' | Is_Other \<Rightarrow> ''unknown'')"
  by (simp add: build_api_item_def Let_def)

lemma item_class_build:
  "item_class (build_api_item full_id cat obj pc) =
     (if parent_truthy pc then Some (cls_name (the pc)) else None)"
  by (simp add: build_api_item_def Let_def)

lemma traverse_SomeD:
  "traverse h root = Some rs \<Longrightarrow> \<exists>v'. traverse_module (Suc (length h)) h root {} = Some (rs, v')"
  by (auto simp: traverse_def)

lemma traverse_from_init_False:
  assumes "traverse h root = Some rs" and "x \<in> set rs"
  shows "\<not> from_init x"
proof -
  from assms(1) obtain v' where "traverse_module (Suc (length h)) h root {} = Some (rs, v')"
    by (auto dest: traverse_SomeD)
  then have "\<forall>x \<in> set rs. \<not> from_init x"
    by (rule traverse_module_pred [rotated 4]) simp_all
  with assms(2) show ?thesis by simp
qed

lemma traverse_class_entry_None:
  assumes "traverse h root = Some rs" and "x \<in> set rs" and "item_type x = ''class''"
  shows "item_class x = None"
proof -
  from assms(1) obtain v' where "traverse_module (Suc (length h)) h root {} = Some (rs, v')"
    by (auto dest: traverse_SomeD)
  then have "\<forall>x \<in> set rs. item_type x = ''class'' \<longrightarrow> item_class x = None"
    by (rule traverse_module_pred [rotated 4])
      (simp_all add: item_type_build item_class_build parent_truthy_def)
  with assms(2,3) show ?thesis by simp
qed

lemma update_exported_eq:
  "update_exported S dyn = Some E \<Longrightarrow>
     E = S \<union> (case dyn of All_List xs \<Rightarrow> set xs | All_Tuple xs \<Rightarrow> set xs | All_Set s \<Rightarrow> s | _ \<Rightarrow> {})"
  by (cases dyn) auto

lemma update_exported_None: "update_exported S dyn = None \<longleftrightarrow> dyn = All_Unhashable"
  by (cases dyn) simp_all

lemma main_unhashable: "main h root body All_Unhashable = None"
  by (simp add: main_def)

subsection \<open>The traversal returns\<close>

lemma traverse_members_visited:
  assumes rec: "\<And>i v rs v'. recurse i v = Some (rs, v') \<Longrightarrow> v \<subseteq> v' \<and> v' \<subseteq> v \<union> N"
    and res: "traverse_members recurse h mn ms v = Some (rs, v')"
  shows "v \<subseteq> v' \<and> v' \<subseteq> v \<union> N"
  using res
proof (induction ms arbitrary: v rs v')
  case Nil
  then show ?case by simp
next
  case (Cons a ms)
  obtain name member where a: "a = (name, member)" by (cases a)
  show ?case
  proof (cases member)
    case (Mem_Module i)
    show ?thesis
    proof (cases "i < length h \<and> prefix (first_segment mn) (name_or '''' (h ! i))")
      case True
      with Cons.prems a Mem_Module obtain sub v1 others where
        sub: "recurse i v = Some (sub, v1)"
        and others: "traverse_members recurse h mn ms v1 = Some (others, v')"
        by (auto simp: Let_def split: option.splits)
      from rec [OF sub] Cons.IH [OF others] show ?thesis by blast
    next
      case False
      with Cons.prems a Mem_Module have "traverse_members recurse h mn ms v = Some (rs, v')"
        by (auto simp: Let_def split: if_splits)
      then show ?thesis by (rule Cons.IH)
    qed
  next
    case (Mem_Class c)
    with Cons.prems a obtain others where
      "traverse_members recurse h mn ms v = Some (others, v')"
      by (auto simp: Let_def split: option.splits)
    then show ?thesis by (rule Cons.IH)
  next
    case (Mem_Function f)
    with Cons.prems a obtain others where
      "traverse_members recurse h mn ms v = Some (others, v')"
      by (auto simp: Let_def split: option.splits)
    then show ?thesis by (rule Cons.IH)
  next
    case Mem_Other
    with Cons.prems a have "traverse_members recurse h mn ms v = Some (rs, v')"
      by (simp add: Let_def)
    then show ?thesis by (rule Cons.IH)
  qed
qed

lemma traverse_module_visited:
  "traverse_module d h i v = Some (rs, v') \<Longrightarrow> v \<subseteq> v' \<and> v' \<subseteq> v \<union> heap_names h"
proof (induction d arbitrary: i v rs v')
  case 0
  then show ?case by simp
next
  case (Suc d)
  from Suc.prems have i: "i < length h" by (simp split: if_splits)
  define mn where "mn = name_or ''unknown'' (h ! i)"
  from i have mn_in: "mn \<in> heap_names h" by (auto simp: mn_def heap_names_def)
  show ?case
  proof (cases "mn \<in> v")
    case True
    with Suc.prems i show ?thesis by (simp add: Let_def mn_def)
  next
    case False
    with Suc.prems i obtain results where
      results: "traverse_members (traverse_module d h) h mn (py_members (h ! i)) (insert mn v)
         = Some (results, v')"
      by (auto simp: Let_def mn_def split: option.splits)
    have "insert mn v \<subseteq> v' \<and> v' \<subseteq> insert mn v \<union> heap_names h"
    proof (rule traverse_members_visited [OF _ results])
      show "v \<subseteq> v' \<and> v' \<subseteq> v \<union> heap_names h"
        if "traverse_module d h i v = Some (rs, v')" for i v rs v'
        using that by (rule Suc.IH)
    qed
    with mn_in show ?thesis by auto
  qed
qed

lemma finite_heap_names: "finite (heap_names h)"
  by (simp add: heap_names_def)

lemma card_unvisited_mono: "v \<subseteq> v' \<Longrightarrow> card (heap_names h - v') \<le> card (heap_names h - v)"
  by (intro card_mono) (auto simp: finite_heap_names)

lemma traverse_members_returns:
  assumes rec: "\<And>i v. i < length h \<Longrightarrow> card (heap_names h - v) < d \<Longrightarrow> \<exists>r. recurse i v = Some r"
    and mono: "\<And>i v rs v'. recurse i v = Some (rs, v') \<Longrightarrow> v \<subseteq> v'"
    and ok: "list_all (member_ok h) ms"
    and small: "card (heap_names h - v) < d"
  shows "\<exists>r. traverse_members recurse h mn ms v = Some r"
  using ok small
proof (induction ms arbitrary: v)
  case Nil
  then show ?case by simp
next
  case (Cons a ms)
  obtain name member where a: "a = (name, member)" by (cases a)
  from Cons.prems(1) have ok': "list_all (member_ok h) ms" by simp
  from Cons.IH [OF ok' Cons.prems(2)] obtain r where
    r: "traverse_members recurse h mn ms v = Some r" by blast
  show ?case
  proof (cases member)
    case (Mem_Module i)
    with Cons.prems(1) a have i: "i < length h" by (simp add: member_ok_def)
    show ?thesis
    proof (cases "prefix (first_segment mn) (name_or '''' (h ! i))")
      case True
      from rec [OF i Cons.prems(2)] obtain sub v1 where sub: "recurse i v = Some (sub, v1)"
        by force
      from mono [OF sub] have "card (heap_names h - v1) \<le> card (heap_names h - v)"
        by (rule card_unvisited_mono)
      with Cons.prems(2) have "card (heap_names h - v1) < d" by simp
      from Cons.IH [OF ok' this] obtain r1 where
        "traverse_members recurse h mn ms v1 = Some r1" by blast
      with sub True i a Mem_Module show ?thesis by (cases r1) (simp add: Let_def)
    next
      case False
      with r i a Mem_Module show ?thesis by (simp add: Let_def)
    qed
  next
    case (Mem_Class c)
    with r a show ?thesis by (cases r) (simp add: Let_def)
  next
    case (Mem_Function f)
    with r a show ?thesis by (cases r) (simp add: Let_def)
  next
    case Mem_Other
    with r a show ?thesis by (simp add: Let_def)
  qed
qed

lemma traverse_module_returns:
  assumes wf: "wf_heap h"
  shows "i < length h \<Longrightarrow> card (heap_names h - v) < d \<Longrightarrow> \<exists>r. traverse_module d h i v = Some r"
proof (induction d arbitrary: i v)
  case 0
  then show ?case by simp
next
  case (Suc d)
  define mn where "mn = name_or ''unknown'' (h ! i)"
  from Suc.prems(1) have mn_in: "mn \<in> heap_names h" by (auto simp: mn_def heap_names_def)
  show ?case
  proof (cases "mn \<in> v")
    case True
    with Suc.prems(1) show ?thesis by (simp add: Let_def mn_def)
  next
    case False
    with mn_in have "card (heap_names h - insert mn v) < card (heap_names h - v)"
      by (intro psubset_card_mono) (auto simp: finite_heap_names)
    with Suc.prems(2) have small: "card (heap_names h - insert mn v) < d" by simp
    from wf Suc.prems(1) have ok: "list_all (member_ok h) (py_members (h ! i))"
      by (simp add: wf_heap_def list_all_length)
    have "\<exists>r. traverse_members (traverse_module d h) h mn (py_members (h ! i)) (insert mn v) = Some r"
    proof (rule traverse_members_returns [OF _ _ ok small])
      show "\<exists>r. traverse_module d h i v = Some r"
        if "i < length h" "card (heap_names h - v) < d" for i v
        using that by (rule Suc.IH)
    next
      show "v \<subseteq> v'" if "traverse_module d h i v = Some (rs, v')" for i v rs v'
        using traverse_module_visited [OF that] by simp
    qed
    then obtain results v1 where
      "traverse_members (traverse_module d h) h mn (py_members (h ! i)) (insert mn v)
         = Some (results, v1)" by force
    with False Suc.prems(1) show ?thesis by (simp add: Let_def mn_def)
  qed
qed

lemma card_heap_names: "card (heap_names h) \<le> length h"
  unfolding heap_names_def by (metis card_image_le card_length le_trans List.finite_set)

lemma traverse_returns:
  assumes "wf_heap h" and "root < length h"
  shows "\<exists>rs. traverse h root = Some rs"
proof -
  have "card (heap_names h - {}) < Suc (length h)"
    using card_heap_names [of h] by simp
  from traverse_module_returns [OF assms(1,2) this] show ?thesis
    by (auto simp: traverse_def)
qed

subsection \<open>Only modules under the root's first segment are entered\<close>

lemma hd_split_on: "hd (split_on sep s) = takeWhile (\<lambda>c. c \<noteq> sep) s"
  by (induction s) (auto simp: Let_def)

lemma first_segment_takeWhile: "first_segment s = takeWhile (\<lambda>c. c \<noteq> CHR ''.'') s"
  by (simp add: first_segment_def hd_split_on)

lemma first_segment_prefix: "prefix (first_segment s) s"
  unfolding first_segment_takeWhile by (metis prefixI takeWhile_dropWhile_id)

lemma first_segment_no_dot: "CHR ''.'' \<notin> set (first_segment s)"
  unfolding first_segment_takeWhile by (auto dest: set_takeWhileD)

lemma prefix_first_segment:
  assumes "prefix p s" and "CHR ''.'' \<notin> set p"
  shows "prefix p (first_segment s)"
proof -
  from assms(1) obtain t where s: "s = p @ t" by (auto simp: prefix_def)
  from assms(2) have "takeWhile (\<lambda>c. c \<noteq> CHR ''.'') (p @ t) = p @ takeWhile (\<lambda>c. c \<noteq> CHR ''.'') t"
    by (intro takeWhile_append2) auto
  with s show ?thesis by (simp add: first_segment_takeWhile)
qed

lemma guard_keeps_prefix:
  assumes s: "prefix s mn" and nodot: "CHR ''.'' \<notin> set s"
    and guard: "prefix (first_segment mn) (name_or '''' m)"
  shows "prefix s (name_or ''unknown'' m)"
proof (cases "py_name m")
  case None
  with guard have "first_segment mn = []" by (simp add: name_or_def)
  with prefix_first_segment [OF s nodot] have "s = []" by simp
  then show ?thesis by simp
next
  case (Some n)
  from prefix_first_segment [OF s nodot] guard have "prefix s (name_or '''' m)"
    by (rule prefix_order.trans)
  with Some show ?thesis by (simp add: name_or_def)
qed

lemma class_member_items_not_module:
  "\<forall>x \<in> set (class_member_items full_id c as). item_type x \<noteq> ''module''"
  by (rule class_member_items_pred) (simp add: item_type_build)

lemma traverse_module_prefix:
  assumes nodot: "CHR ''.'' \<notin> set s"
  shows "traverse_module d h i v = Some (rs, v') \<Longrightarrow> prefix s (name_or ''unknown'' (h ! i)) \<Longrightarrow>
         \<forall>x \<in> set rs. item_type x = ''module'' \<longrightarrow> prefix s (item_id x)"
proof (induction d arbitrary: i v rs v')
  case 0
  then show ?case by simp
next
  case (Suc d)
  from Suc.prems(1) have i: "i < length h" by (simp split: if_splits)
  define mn where "mn = name_or ''unknown'' (h ! i)"
  from Suc.prems(2) have s: "prefix s mn" by (simp add: mn_def)
  show ?case
  proof (cases "mn \<in> v")
    case True
    with Suc.prems(1) i have "rs = []" by (simp add: Let_def mn_def)
    then show ?thesis by simp
  next
    case False
    with Suc.prems(1) i obtain results where
      results: "traverse_members (traverse_module d h) h mn (py_members (h ! i)) (insert mn v)
                  = Some (results, v')"
      and rs: "rs = build_api_item mn Is_Module (py_insp (h ! i)) None # results"
      by (auto simp: Let_def mn_def split: option.splits)
    have "\<forall>x \<in> set results. item_type x = ''module'' \<longrightarrow> prefix s (item_id x)"
    proof (rule traverse_members_pred [OF _ _ _ results])
      fix j w rs' w'
      assume "j < length h" and "prefix (first_segment mn) (name_or '''' (h ! j))"
        and call: "traverse_module d h j w = Some (rs', w')"
      then have "prefix s (name_or ''unknown'' (h ! j))"
        using guard_keeps_prefix [OF s nodot] by simp
      with call show "\<forall>x \<in> set rs'. item_type x = ''module'' \<longrightarrow> prefix s (item_id x)"
        by (rule Suc.IH)
    next
      fix name c
      show "(item_type (build_api_item (mn @ ''.'' @ name) Is_Class (cls_insp c) None) = ''module''
              \<longrightarrow> prefix s (item_id (build_api_item (mn @ ''.'' @ name) Is_Class (cls_insp c) None)))
            \<and> (\<forall>x \<in> set (class_member_items (mn @ ''.'' @ name) c (cls_members c)).
                  item_type x = ''module'' \<longrightarrow> prefix s (item_id x))"
        using class_member_items_not_module by (simp add: item_type_build)
    next
      fix name f
      show "item_type (build_api_item (mn @ ''.'' @ name) Is_Function f None) = ''module''
              \<longrightarrow> prefix s (item_id (build_api_item (mn @ ''.'' @ name) Is_Function f None))"
        by (simp add: item_type_build)
    qed
    with s rs show ?thesis by simp
  qed
qed

subsection \<open>Failing retrievals change three entries and nothing else\<close>

lemma build_api_item_fail:
  "build_api_item full_id cat (fail_insp obj) (map_option fail_class pc)
     = fail_item (build_api_item full_id cat obj pc)"
  by (cases pc; cases cat)
     (simp_all add: build_api_item_def fail_item_def fail_insp_def fail_class_def
        parent_truthy_def Let_def)

lemma class_member_items_fail:
  "class_member_items full_id (fail_class c) (map (\<lambda>(n, a). (n, fail_attr a)) as)
     = map fail_item (class_member_items full_id c as)"
proof (induction as)
  case Nil
  then show ?case by simp
next
  case (Cons a as)
  obtain sub member where a: "a = (sub, member)" by (cases a)
  show ?case
    using Cons.IH a build_api_item_fail [of _ Is_Function _ "Some c"]
    by (cases member) simp_all
qed

lemma length_fail_heap: "length (fail_heap h) = length h"
  by (simp add: fail_heap_def)

lemma name_or_fail_heap: "i < length h \<Longrightarrow> name_or d (fail_heap h ! i) = name_or d (h ! i)"
  by (simp add: fail_heap_def fail_module_def name_or_def)

lemma traverse_members_fail:
  assumes rec: "\<And>i v. recurse' i v = fail_result (recurse i v)"
  shows "traverse_members recurse' (fail_heap h) mn (map (\<lambda>(n, x). (n, fail_member x)) ms) v
           = fail_result (traverse_members recurse h mn ms v)"
proof (induction ms arbitrary: v)
  case Nil
  then show ?case by (simp add: fail_result_def)
next
  case (Cons a ms)
  obtain name member where a: "a = (name, member)" by (cases a)
  show ?case
  proof (cases member)
    case (Mem_Module i)
    show ?thesis
    proof (cases "i < length h")
      case True
      then show ?thesis
        using a Mem_Module Cons.IH rec
        by (auto simp: Let_def name_or_fail_heap length_fail_heap fail_result_def split: option.splits)
    next
      case False
      then show ?thesis using a Mem_Module by (simp add: Let_def length_fail_heap fail_result_def)
    qed
  next
    case (Mem_Class c)
    have "cls_insp (fail_class c) = fail_insp (cls_insp c)"
      and "cls_members (fail_class c) = map (\<lambda>(n, a). (n, fail_attr a)) (cls_members c)"
      by (simp_all add: fail_class_def)
    then show ?thesis
      using a Mem_Class Cons.IH [of v] build_api_item_fail [of _ Is_Class _ None]
        class_member_items_fail [of _ c "cls_members c"]
      by (auto simp: Let_def fail_result_def split: option.splits)
  next
    case (Mem_Function f)
    then show ?thesis
      using a Cons.IH [of v] build_api_item_fail [of _ Is_Function _ None]
      by (auto simp: Let_def fail_result_def split: option.splits)
  next
    case Mem_Other
    then show ?thesis using a Cons.IH [of v] by (simp add: Let_def)
  qed
qed

lemma traverse_module_fail:
  "traverse_module d (fail_heap h) i v = fail_result (traverse_module d h i v)"
proof (induction d arbitrary: i v)
  case 0
  then show ?case by (simp add: fail_result_def)
next
  case (Suc d)
  show ?case
  proof (cases "i < length h")
    case True
    have m: "py_members (fail_heap h ! i) = map (\<lambda>(n, x). (n, fail_member x)) (py_members (h ! i))"
      and p: "py_insp (fail_heap h ! i) = fail_insp (py_insp (h ! i))"
      using True by (simp_all add: fail_heap_def fail_module_def)
    have len: "length (fail_heap h) = length h" by (rule length_fail_heap)
    show ?thesis
      using True traverse_members_fail [of "traverse_module d (fail_heap h)" "traverse_module d h", OF Suc.IH]
        build_api_item_fail [of _ Is_Module _ None]
      by (auto simp: Let_def m p len name_or_fail_heap fail_result_def split: option.splits)
  next
    case False
    then show ?thesis by (simp add: length_fail_heap fail_result_def)
  qed
qed

lemma traverse_fail: "traverse (fail_heap h) root = map_option (map fail_item) (traverse h root)"
  by (cases "traverse_module (Suc (length h)) h root {}")
     (auto simp: traverse_def traverse_module_fail fail_result_def length_fail_heap
        simp del: traverse_module.simps)

subsection \<open>The example package\<close>

lemma example_traverse: "traverse example_heap 0 = Some example_records"
  by (simp add: traverse_def example_heap_def example_records_def widget_class_def
      name_or_def first_segment_def Let_def)

lemma wf_example_heap: "wf_heap example_heap"
  by (simp add: wf_heap_def example_heap_def member_ok_def)

lemma member_ok_fail: "member_ok (fail_heap h) (n, fail_member x) = member_ok h (n, x)"
  by (cases x) (simp_all add: member_ok_def length_fail_heap)

lemma wf_fail_heap: "wf_heap (fail_heap h) = wf_heap h"
  by (simp add: wf_heap_def fail_heap_def fail_module_def list_all_iff
      member_ok_fail [unfolded fail_heap_def] split_beta)

section \<open>Properties of \<^verbatim>\<open>build_knowledge_graph\<close>\<close>

lemma graph_add_simps [simp]:
  "graph (graph_add t st) = insert t (graph st)"
  "script_map (graph_add t st) = script_map st"
  "module_map (graph_add t st) = module_map st"
  "class_map (graph_add t st) = class_map st"
  "api_map (graph_add t st) = api_map st"
  by (simp_all add: graph_add_def)

lemma vocabulary_distinct [simp]:
  "CODE ''hasDescription'' \<noteq> RDF_type" "CODE ''hasDescription'' \<noteq> RDFS_label"
  "CODE ''hasDescription'' \<noteq> CODE ''hasScript''" "CODE ''hasDescription'' \<noteq> CODE ''containModule''"
  "CODE ''hasDescription'' \<noteq> CODE ''include''" "CODE ''hasDescription'' \<noteq> CODE ''hasMethod''"
  "CODE ''hasDescription'' \<noteq> CODE ''hasReturnValue''" "CODE ''hasDescription'' \<noteq> CODE ''hasParameter''"
  "RDF_type \<noteq> CODE ''hasDescription''" "RDFS_label \<noteq> CODE ''hasDescription''"
  "CODE ''hasScript'' \<noteq> CODE ''hasDescription''" "CODE ''containModule'' \<noteq> CODE ''hasDescription''"
  "CODE ''include'' \<noteq> CODE ''hasDescription''" "CODE ''hasMethod'' \<noteq> CODE ''hasDescription''"
  "CODE ''hasReturnValue'' \<noteq> CODE ''hasDescription''" "CODE ''hasParameter'' \<noteq> CODE ''hasDescription''"
  by (simp_all add: CODE_def CODE_ns_def RDF_type_def RDFS_label_def)

lemma node_truthy_uri [simp]: "node_truthy (Some (uri_encode (CODE c) k))"
  by (simp add: node_truthy_def uri_encode_def CODE_def CODE_ns_def)

subsection \<open>Effects of the steps of the loop body\<close>

lemma handle_script_graph:
  "graph st \<subseteq> graph (snd (handle_script l f st))
   \<and> graph (snd (handle_script l f st)) \<subseteq> graph st \<union> {t. pred_of t \<noteq> CODE ''hasDescription''}
   \<and> module_map (snd (handle_script l f st)) = module_map st"
  by (auto simp: handle_script_def Let_def pred_of_def split: option.splits)

lemma handle_module_graph:
  "graph st \<subseteq> graph (snd (handle_module s m st))
   \<and> graph (snd (handle_module s m st)) \<subseteq> graph st \<union> {t. pred_of t \<noteq> CODE ''hasDescription''}"
  by (auto simp: handle_module_def Let_def pred_of_def split: option.splits)

lemma handle_module_ok:
  assumes "module_map_ok st"
  shows "fst (handle_module s m st) = Some (uri_encode (CODE ''Module'') m)
       \<and> (uri_encode (CODE ''Module'') m, RDF_type, CODE ''Module'') \<in> graph (snd (handle_module s m st))
       \<and> module_map_ok (snd (handle_module s m st))"
  using assms
  by (auto simp: handle_module_def module_map_ok_def Let_def split: option.splits)

lemma handle_class_graph:
  "graph st \<subseteq> graph (handle_class item s m st)
   \<and> graph (handle_class item s m st) \<subseteq> graph st \<union> {t. pred_of t \<noteq> CODE ''hasDescription''}"
  using handle_module_graph [of st s "fallback_module (j_class item)"]
  by (auto simp: handle_class_def Let_def pred_of_def split_beta)

lemma handle_api_graph:
  "graph st \<subseteq> graph (handle_api item m st)
   \<and> graph (handle_api item m st) \<subseteq> graph st \<union> {t. pred_of t \<noteq> CODE ''hasDescription''}
   \<and> module_map (handle_api item m st) = module_map st"
  by (auto simp: handle_api_def Let_def pred_of_def split: option.splits)

lemma handle_returns_graph:
  "graph st \<subseteq> graph (handle_returns item st)
   \<and> graph (handle_returns item st) \<subseteq> graph st \<union> {t. pred_of t \<noteq> CODE ''hasDescription''}
   \<and> module_map (handle_returns item st) = module_map st"
  by (auto simp: handle_returns_def Let_def pred_of_def)

lemma handle_param_graph:
  "graph st \<subseteq> graph (handle_param item a e st)
   \<and> graph (handle_param item a e st) \<subseteq> graph st \<union> {t. pred_of t \<noteq> CODE ''hasDescription''}
   \<and> module_map (handle_param item a e st) = module_map st"
  by (auto simp: handle_param_def Let_def pred_of_def)

lemma fold_handle_param_graph:
  "graph st \<subseteq> graph (fold (handle_param item a) es st)
   \<and> graph (fold (handle_param item a) es st) \<subseteq> graph st \<union> {t. pred_of t \<noteq> CODE ''hasDescription''}
   \<and> module_map (fold (handle_param item a) es st) = module_map st"
proof (induction es arbitrary: st)
  case Nil
  then show ?case by simp
next
  case (Cons e es)
  from Cons.IH [of "handle_param item a e st"] handle_param_graph [of st item a e]
  show ?case by auto
qed

lemma handle_params_graph:
  "graph st \<subseteq> graph (handle_params item st)
   \<and> graph (handle_params item st) \<subseteq> graph st \<union> {t. pred_of t \<noteq> CODE ''hasDescription''}
   \<and> module_map (handle_params item st) = module_map st"
  using fold_handle_param_graph [of st item]
  by (simp add: handle_params_def)

lemma handle_doc_graph:
  "graph st \<subseteq> graph (handle_doc item st)
   \<and> graph (handle_doc item st)
       \<subseteq> graph st \<union> {t. pred_of t \<noteq> CODE ''hasDescription''} \<union> description_edges item
   \<and> module_map (handle_doc item st) = module_map st"
  by (auto simp: handle_doc_def description_edges_def Let_def pred_of_def)

lemma handle_doc_typed:
  "truthy (j_doc item) \<Longrightarrow>
     (uri_encode (CODE ''Description'') (j_id item @ ''_desc''), RDF_type, CODE ''Description'')
       \<in> graph (handle_doc item st)"
  by (simp add: handle_doc_def Let_def)

lemma handle_doc_other_kind:
  "j_type item \<noteq> ''function'' \<Longrightarrow> j_type item \<noteq> ''member_function'' \<Longrightarrow> j_type item \<noteq> ''class'' \<Longrightarrow>
     graph (handle_doc item st) \<subseteq> graph st \<union> {t. pred_of t \<noteq> CODE ''hasDescription''}"
  using handle_doc_graph [of st item] by (auto simp: description_edges_def)

lemma module_map_ok_mono:
  "module_map_ok st \<Longrightarrow> module_map st' = module_map st \<Longrightarrow> graph st \<subseteq> graph st' \<Longrightarrow> module_map_ok st'"
  by (auto simp: module_map_ok_def)

lemma handle_class_ok:
  assumes "module_map_ok st" and m0: "truthy (j_module item) \<longrightarrow> m = Some (uri_encode (CODE ''Module'') (the (j_module item)))"
  shows "module_map_ok (handle_class item s m st)"
proof (cases "truthy (j_module item)")
  case True
  with assms(1) show ?thesis
    by (auto simp: handle_class_def module_map_ok_def Let_def)
next
  case False
  from handle_module_ok [OF assms(1), of s "fallback_module (j_class item)"]
  have "module_map_ok (snd (handle_module s (fallback_module (j_class item)) st))" by simp
  with False show ?thesis
    by (auto simp: handle_class_def module_map_ok_def Let_def split_beta)
qed

lemma handle_class_fallback:
  assumes "module_map_ok st" and "\<not> truthy (j_module item)"
  shows "(uri_encode (CODE ''Module'') (fallback_module (j_class item)), RDF_type, CODE ''Module'')
           \<in> graph (handle_class item s m st)
       \<and> (uri_encode (CODE ''Module'') (fallback_module (j_class item)), CODE ''include'',
            uri_encode (CODE ''Class'') (j_id item))
           \<in> graph (handle_class item s m st)
       \<and> (uri_encode (CODE ''Class'') (j_id item), RDF_type, CODE ''Class'')
           \<in> graph (handle_class item s m st)"
  using handle_module_ok [OF assms(1), of s "fallback_module (j_class item)"] assms(2)
  by (simp add: handle_class_def Let_def split_beta)

lemma process_item_chain:
  "process_item l item st =
     handle_params item (handle_returns item (handle_doc item (after_kind l item st)))"
  by (simp add: process_item_def after_kind_def after_module_def mod_node_of_def after_script_def
      Let_def split_beta)

lemma after_script_graph:
  "graph st \<subseteq> graph (after_script l item st)
   \<and> graph (after_script l item st) \<subseteq> graph st \<union> {t. pred_of t \<noteq> CODE ''hasDescription''}
   \<and> module_map (after_script l item st) = module_map st"
  unfolding after_script_def by (rule handle_script_graph)

lemma after_module_graph:
  "graph st \<subseteq> graph (after_module l item st)
   \<and> graph (after_module l item st) \<subseteq> graph st \<union> {t. pred_of t \<noteq> CODE ''hasDescription''}"
  using after_script_graph [of st l item]
    handle_module_graph [of "after_script l item st" "fst (handle_script l (j_file item) st)" "the (j_module item)"]
  by (auto simp: after_module_def)

lemma after_kind_graph:
  "graph st \<subseteq> graph (after_kind l item st)
   \<and> graph (after_kind l item st) \<subseteq> graph st \<union> {t. pred_of t \<noteq> CODE ''hasDescription''}"
  using after_module_graph [of st l item]
    handle_class_graph [of "after_module l item st" item "fst (handle_script l (j_file item) st)" "mod_node_of l item st"]
    handle_api_graph [of "after_module l item st" item "mod_node_of l item st"]
  by (auto simp: after_kind_def)

lemma process_item_graph:
  "graph st \<subseteq> graph (process_item l item st)
   \<and> graph (process_item l item st)
       \<subseteq> graph st \<union> {t. pred_of t \<noteq> CODE ''hasDescription''} \<union> description_edges item"
  using after_kind_graph [of st l item]
    handle_doc_graph [of "after_kind l item st" item]
    handle_returns_graph [of "handle_doc item (after_kind l item st)" item]
    handle_params_graph [of "handle_returns item (handle_doc item (after_kind l item st))" item]
  unfolding process_item_chain by blast

lemma after_script_ok: "module_map_ok st \<Longrightarrow> module_map_ok (after_script l item st)"
  using after_script_graph [of st l item] by (auto intro: module_map_ok_mono)

lemma after_module_ok:
  assumes "module_map_ok st"
  shows "module_map_ok (after_module l item st)
       \<and> (truthy (j_module item) \<longrightarrow>
            mod_node_of l item st = Some (uri_encode (CODE ''Module'') (the (j_module item))))"
  using handle_module_ok [OF after_script_ok [OF assms, of l item],
      of "fst (handle_script l (j_file item) st)" "the (j_module item)"]
    after_script_ok [OF assms, of l item]
  by (simp add: after_module_def mod_node_of_def)

lemma after_kind_ok:
  assumes "module_map_ok st"
  shows "module_map_ok (after_kind l item st)"
proof -
  note m = after_module_ok [OF assms, of l item]
  show ?thesis
  proof (cases "j_type item = ''class''")
    case True
    with m handle_class_ok [of "after_module l item st" item "mod_node_of l item st"]
    show ?thesis by (simp add: after_kind_def)
  next
    case False
    with m handle_api_graph [of "after_module l item st" item "mod_node_of l item st"]
    show ?thesis by (auto simp: after_kind_def intro: module_map_ok_mono)
  qed
qed

lemma process_item_ok:
  assumes "module_map_ok st"
  shows "module_map_ok (process_item l item st)"
proof -
  let ?a = "after_kind l item st"
  from after_kind_ok [OF assms] have "module_map_ok ?a" .
  with handle_doc_graph [of ?a item] have "module_map_ok (handle_doc item ?a)"
    by (auto intro: module_map_ok_mono)
  with handle_returns_graph [of "handle_doc item ?a" item]
  have "module_map_ok (handle_returns item (handle_doc item ?a))"
    by (auto intro: module_map_ok_mono)
  with handle_params_graph [of "handle_returns item (handle_doc item ?a)" item]
  show ?thesis unfolding process_item_chain by (auto intro: module_map_ok_mono)
qed

lemma fold_process_graph:
  "graph st \<subseteq> graph (fold (process_item l) items st)
   \<and> graph (fold (process_item l) items st)
       \<subseteq> graph st \<union> {t. pred_of t \<noteq> CODE ''hasDescription''} \<union> (\<Union>item \<in> set items. description_edges item)"
proof (induction items arbitrary: st)
  case Nil
  then show ?case by simp
next
  case (Cons item items)
  from Cons.IH [of "process_item l item st"] process_item_graph [of st l item]
  show ?case by auto
qed

lemma fold_process_ok:
  "module_map_ok st \<Longrightarrow> module_map_ok (fold (process_item l) items st)"
  by (induction items arbitrary: st) (simp_all add: process_item_ok)

lemma initial_state_ok: "module_map_ok (initial_state library_name)"
  by (simp add: module_map_ok_def initial_state_def)

lemma initial_no_description_edge:
  "t \<in> graph (initial_state library_name) \<Longrightarrow> pred_of t \<noteq> CODE ''hasDescription''"
  by (auto simp: initial_state_def ontology_def pred_of_def CODE_def CODE_ns_def RDF_type_def RDFS_label_def)

text \<open>What the processing of one record of the list contributes survives to the end.\<close>

lemma build_knowledge_graph_split:
  assumes "item \<in> set data_list"
  shows "\<exists>st. module_map_ok st
           \<and> graph (process_item (library_node_of library_name) item st)
               \<subseteq> graph (build_knowledge_graph data_list library_name)"
proof -
  from assms obtain xs ys where d: "data_list = xs @ item # ys" by (auto dest: split_list)
  let ?l = "library_node_of library_name"
  let ?st = "fold (process_item ?l) xs (initial_state library_name)"
  have "module_map_ok ?st" by (rule fold_process_ok [OF initial_state_ok])
  moreover have "graph (process_item ?l item ?st) \<subseteq> graph (build_knowledge_graph data_list library_name)"
    using fold_process_graph [of "process_item ?l item ?st" ?l ys]
    by (simp add: build_knowledge_graph_def d)
  ultimately show ?thesis by blast
qed

lemma process_item_class_fallback:
  assumes "module_map_ok st" and "j_type item = ''class''" and "\<not> truthy (j_module item)"
  shows "(uri_encode (CODE ''Module'') (fallback_module (j_class item)), RDF_type, CODE ''Module'')
           \<in> graph (process_item l item st)
       \<and> (uri_encode (CODE ''Module'') (fallback_module (j_class item)), CODE ''include'',
            uri_encode (CODE ''Class'') (j_id item))
           \<in> graph (process_item l item st)
       \<and> (uri_encode (CODE ''Class'') (j_id item), RDF_type, CODE ''Class'')
           \<in> graph (process_item l item st)"
proof -
  let ?a = "after_kind l item st"
  from after_module_ok [OF assms(1), of l item]
  have "module_map_ok (after_module l item st)" by simp
  from handle_class_fallback [OF this assms(3)] assms(2)
  have "(uri_encode (CODE ''Module'') (fallback_module (j_class item)), RDF_type, CODE ''Module'') \<in> graph ?a
       \<and> (uri_encode (CODE ''Module'') (fallback_module (j_class item)), CODE ''include'',
            uri_encode (CODE ''Class'') (j_id item)) \<in> graph ?a
       \<and> (uri_encode (CODE ''Class'') (j_id item), RDF_type, CODE ''Class'') \<in> graph ?a"
    by (simp add: after_kind_def)
  moreover have "graph ?a \<subseteq> graph (process_item l item st)"
    using handle_doc_graph [of ?a item]
      handle_returns_graph [of "handle_doc item ?a" item]
      handle_params_graph [of "handle_returns item (handle_doc item ?a)" item]
    unfolding process_item_chain by blast
  ultimately show ?thesis by blast
qed

lemma process_item_description:
  assumes "truthy (j_doc item)"
  shows "(uri_encode (CODE ''Description'') (j_id item @ ''_desc''), RDF_type, CODE ''Description'')
           \<in> graph (process_item l item st)"
proof -
  let ?a = "after_kind l item st"
  have "graph (handle_doc item ?a) \<subseteq> graph (process_item l item st)"
    using handle_returns_graph [of "handle_doc item ?a" item]
      handle_params_graph [of "handle_returns item (handle_doc item ?a)" item]
    unfolding process_item_chain by blast
  with handle_doc_typed [OF assms, of ?a] show ?thesis by blast
qed

text \<open>A \<^verbatim>\<open>null\<close> name does not fall back to the dictionary key: the node is named after \<open>None\<close>.\<close>

lemma handle_param_null_name:
  "(uri_encode (CODE ''API'') ''pkg.f'', CODE ''hasParameter'',
    uri_encode (CODE ''Parameter'') ''pkg.f_None'')
   \<in> graph (handle_param (fresh_item ''function'' ''pkg.f'') (uri_encode (CODE ''API'') ''pkg.f'')
       (''x'', \<lparr> p_name = Json_Null, p_is_optional = Json_Val True \<rparr>) st)"
  by (simp add: handle_param_def real_param_name_def fresh_item_def graph_add_def Let_def)

section \<open>Properties of \<^verbatim>\<open>write_to_neo4j_py2neo\<close>\<close>

subsection \<open>Writes by key are idempotent\<close>

lemma set_add_key: "set (add_key k ks) = insert k (set ks)"
  by (auto simp: add_key_def)

lemma set_fold_add_key: "set (fold add_key ks l) = set l \<union> set ks"
  by (induction ks arbitrary: l) (auto simp: set_add_key)

lemma fold_add_key_present: "set ks \<subseteq> set l \<Longrightarrow> fold add_key ks l = l"
  by (induction ks arbitrary: l) (auto simp: add_key_def)

lemma fold_add_key_idem: "fold add_key ks (fold add_key ks l) = fold add_key ks l"
  by (rule fold_add_key_present) (simp add: set_fold_add_key)

lemma fold_op_update_apply:
  "fold op_update ops f k = (if k \<in> set (concat (map op_key ops)) then fold op_update ops g k else f k)"
proof (induction ops arbitrary: f g)
  case Nil
  then show ?case by simp
next
  case (Cons op ops)
  let ?f = "op_update op f" and ?g = "op_update op g"
  show ?case
  proof (cases "k \<in> set (concat (map op_key ops))")
    case True
    with Cons.IH [of ?f ?g] have "fold op_update ops ?f k = fold op_update ops ?g k" by simp
    with True show ?thesis by simp
  next
    case False
    with Cons.IH [of ?f ?g] have f: "fold op_update ops ?f k = ?f k" by simp
    from False Cons.IH [of ?g ?f] have g: "fold op_update ops ?g k = ?g k" by simp
    show ?thesis
    proof (cases "k \<in> set (op_key op)")
      case True
      then obtain extra where "op = Merge_Node k extra" by (cases op) auto
      with f g show ?thesis by simp
    next
      case False
      then have "?f k = f k" by (cases op) auto
      with f False \<open>k \<notin> set (concat (map op_key ops))\<close> show ?thesis by simp
    qed
  qed
qed

lemma fold_op_update_idem: "fold op_update ops (fold op_update ops f) = fold op_update ops f"
proof
  fix k
  show "fold op_update ops (fold op_update ops f) k = fold op_update ops f k"
    using fold_op_update_apply [of ops "fold op_update ops f" k f] by simp
qed

lemma fold_key_exec:
  assumes "\<forall>op \<in> set ops. is_merge op"
  shows "fold key_exec ops A =
     \<lparr> k_keys = fold add_key (concat (map op_key ops)) (k_keys A),
       k_props = fold op_update ops (k_props A),
       k_rels = k_rels A \<union> (\<Union>op \<in> set ops. op_rel op) \<rparr>"
  using assms
proof (induction ops arbitrary: A)
  case Nil
  then show ?case by simp
next
  case (Cons op ops)
  then have IH: "fold key_exec ops (key_exec op A) =
     \<lparr> k_keys = fold add_key (concat (map op_key ops)) (k_keys (key_exec op A)),
       k_props = fold op_update ops (k_props (key_exec op A)),
       k_rels = k_rels (key_exec op A) \<union> (\<Union>op \<in> set ops. op_rel op) \<rparr>"
    by simp
  from Cons.prems have "is_merge op" by simp
  then show ?case unfolding fold_simps IH by (cases op) auto
qed

lemma fold_key_exec_idem:
  assumes "\<forall>op \<in> set ops. is_merge op"
  shows "fold key_exec ops (fold key_exec ops A) = fold key_exec ops A"
  unfolding fold_key_exec [OF assms]
  by (simp add: fold_add_key_idem fold_op_update_idem Un_assoc)

subsection \<open>Positions of keys\<close>

lemma index_of_less: "k \<in> set xs \<Longrightarrow> index_of xs k < length xs"
  by (induction xs) auto

lemma nth_index_of: "k \<in> set xs \<Longrightarrow> xs ! index_of xs k = k"
  by (induction xs) auto

lemma index_of_append: "k \<in> set xs \<Longrightarrow> index_of (xs @ ys) k = index_of xs k"
  by (induction xs) auto

lemma index_of_append_new: "k \<notin> set xs \<Longrightarrow> index_of (xs @ [k]) k = length xs"
  by (induction xs) auto

lemma index_of_add_key: "k' \<in> set ks \<Longrightarrow> index_of (add_key k ks) k' = index_of ks k'"
  by (simp add: add_key_def index_of_append)

lemma index_of_prefix: "prefix xs ys \<Longrightarrow> k \<in> set xs \<Longrightarrow> index_of ys k = index_of xs k"
  by (auto simp: prefix_def index_of_append)

lemma prefix_add_key: "prefix ks (add_key k ks)"
  by (simp add: add_key_def)

lemma map_update_at_key:
  assumes "distinct ks" and "k \<in> set ks"
  shows "(map f ks)[index_of ks k := v] = map (f(k := v)) ks"
  using assms by (induction ks) auto

subsection \<open>The store calls on a keyed store\<close>

lemma find_node_keyed:
  assumes "\<forall>k \<in> set ks. map_of (k_props A k) ''name'' = Some (PStr (snd k))"
  shows "find_node L ''name'' (PStr n) (map (node_of A) ks)
           = (if (L, n) \<in> set ks then Some (index_of ks (L, n)) else None)"
  using assms
proof (induction ks)
  case Nil
  then show ?case by simp
next
  case (Cons k ks)
  then have "map_of (k_props A k) ''name'' = Some (PStr (snd k))" by simp
  then have "(node_label (node_of A k) = L \<and> map_of (node_props (node_of A k)) ''name'' = Some (PStr n))
               = (k = (L, n))"
    by (cases k) (auto simp: node_of_def)
  with Cons show ?case by auto
qed

lemma find_node_store_of:
  "keyed_ok A \<Longrightarrow>
     find_node L ''name'' (PStr n) (st_nodes (store_of A))
       = (if (L, n) \<in> set (k_keys A) then Some (index_of (k_keys A) (L, n)) else None)"
  by (simp add: store_of_def keyed_ok_def find_node_keyed)

lemma rels_image_append:
  assumes "\<forall>r \<in> R. fst r \<in> set ks \<and> snd (snd r) \<in> set ks"
  shows "(\<lambda>(k1, t, k2). (index_of (ks @ ys) k1, t, index_of (ks @ ys) k2)) ` R
           = (\<lambda>(k1, t, k2). (index_of ks k1, t, index_of ks k2)) ` R"
  using assms by (intro image_cong) (auto simp: index_of_append)

lemma key_exec_node_keys [simp]:
  "k_keys (key_exec (Merge_Node k extra) A) = add_key k (k_keys A)"
  by simp

lemma key_exec_rel_keys [simp]:
  "k_keys (key_exec (Merge_Rel k1 t k2) A) = k_keys A"
  by simp

lemma keyed_ok_merge_node:
  assumes "keyed_ok A"
  shows "keyed_ok (key_exec (Merge_Node k extra) A)"
  using assms by (auto simp: keyed_ok_def add_key_def)

lemma keyed_ok_merge_rel:
  assumes "keyed_ok A" and "k1 \<in> set (k_keys A)" and "k2 \<in> set (k_keys A)"
  shows "keyed_ok (key_exec (Merge_Rel k1 t k2) A)"
  using assms by (auto simp: keyed_ok_def)

lemma keyed_ok_ensure:
  assumes "keyed_ok A"
  shows "keyed_ok (key_exec (Ensure_Node k) A)"
  using assms by (auto simp: keyed_ok_def)

lemma store_of_new_key:
  assumes ok: "keyed_ok A" and new: "k \<notin> set (k_keys A)"
  shows "store_of (A\<lparr>k_keys := k_keys A @ [k], k_props := (k_props A)(k := p)\<rparr>)
           = (store_of A)\<lparr>st_nodes := st_nodes (store_of A) @ [\<lparr>node_label = fst k, node_props = p\<rparr>]\<rparr>"
proof -
  from new have "map (node_of (A\<lparr>k_keys := k_keys A @ [k], k_props := (k_props A)(k := p)\<rparr>)) (k_keys A)
                   = map (node_of A) (k_keys A)"
    by (intro map_cong) (auto simp: node_of_def)
  moreover from ok have "\<forall>r \<in> k_rels A. fst r \<in> set (k_keys A) \<and> snd (snd r) \<in> set (k_keys A)"
    by (simp add: keyed_ok_def)
  ultimately show ?thesis
    by (simp add: store_of_def rels_image_append node_of_def)
qed

lemma store_of_update_key:
  assumes ok: "keyed_ok A" and old: "k \<in> set (k_keys A)"
  shows "store_of (A\<lparr>k_props := (k_props A)(k := p)\<rparr>)
           = (store_of A)\<lparr>st_nodes := (st_nodes (store_of A))
                [index_of (k_keys A) k := (st_nodes (store_of A) ! index_of (k_keys A) k)\<lparr>node_props := p\<rparr>]\<rparr>"
proof -
  define A' where "A' = A\<lparr>k_props := (k_props A)(k := p)\<rparr>"
  from ok have d: "distinct (k_keys A)" by (simp add: keyed_ok_def)
  have keys: "k_keys A' = k_keys A" and rels: "k_rels A' = k_rels A"
    by (simp_all add: A'_def)
  have node: "node_of A' = (node_of A)(k := \<lparr>node_label = fst k, node_props = p\<rparr>)"
    by (rule ext) (simp add: node_of_def A'_def)
  have at: "(map (node_of A) (k_keys A) ! index_of (k_keys A) k)\<lparr>node_props := p\<rparr>
              = \<lparr>node_label = fst k, node_props = p\<rparr>"
    using old by (simp add: index_of_less nth_index_of node_of_def)
  have "store_of A' = (store_of A)\<lparr>st_nodes := (st_nodes (store_of A))
                [index_of (k_keys A) k := (st_nodes (store_of A) ! index_of (k_keys A) k)\<lparr>node_props := p\<rparr>]\<rparr>"
    unfolding store_of_def keys rels node
    by (simp add: map_update_at_key [OF d old] at)
  then show ?thesis by (simp only: A'_def)
qed

lemma merge_node_store_of:
  assumes ok: "keyed_ok A"
  shows "merge_node (Node L n extra) L ''name'' (store_of A)
           = (index_of (add_key (L, n) (k_keys A)) (L, n),
              store_of (key_exec (Merge_Node (L, n) extra) A))"
proof (cases "(L, n) \<in> set (k_keys A)")
  case True
  then have "key_exec (Merge_Node (L, n) extra) A
               = A\<lparr>k_props := (k_props A)((L, n) := (''name'', PStr n) # extra)\<rparr>"
    by (simp add: add_key_def)
  with True ok show ?thesis
    by (simp add: merge_node_def Node_def find_node_store_of store_of_update_key add_key_def)
next
  case False
  then have "key_exec (Merge_Node (L, n) extra) A
               = A\<lparr>k_keys := k_keys A @ [(L, n)],
                   k_props := (k_props A)((L, n) := (''name'', PStr n) # extra)\<rparr>"
    by (simp add: add_key_def)
  with False ok show ?thesis
    by (simp add: merge_node_def Node_def find_node_store_of store_of_new_key add_key_def
        create_node_def index_of_append_new) (simp add: store_of_def)
qed

lemma merge_rel_store_of:
  "merge_rel (index_of (k_keys A) k1, t, index_of (k_keys A) k2) (store_of A)
     = store_of (key_exec (Merge_Rel k1 t k2) A)"
  by (simp add: merge_rel_def store_of_def node_of_def)

lemma ensure_store_of:
  assumes ok: "keyed_ok A"
  shows "(case find_node L ''name'' (PStr n) (st_nodes (store_of A)) of
            Some existing \<Rightarrow> (existing, store_of A)
          | None \<Rightarrow> create_node (Node L n []) (store_of A))
           = (index_of (k_keys (key_exec (Ensure_Node (L, n)) A)) (L, n),
              store_of (key_exec (Ensure_Node (L, n)) A))"
proof (cases "(L, n) \<in> set (k_keys A)")
  case True
  with ok show ?thesis by (simp add: find_node_store_of)
next
  case False
  with ok show ?thesis
    by (simp add: find_node_store_of store_of_new_key create_node_def Node_def index_of_append_new)
       (simp add: store_of_def)
qed

lemma empty_store_keyed: "empty_store = store_of empty_keyed \<and> keyed_ok empty_keyed"
  by (simp add: empty_store_def store_of_def empty_keyed_def keyed_ok_def)

subsection \<open>The loop body writes by key\<close>

lemma later_store_refl: "keyed_ok A \<Longrightarrow> later_store A A"
  by (simp add: later_store_def)

lemma later_store_trans: "later_store A B \<Longrightarrow> later_store B C \<Longrightarrow> later_store A C"
  by (auto simp: later_store_def)

lemma later_store_index:
  "later_store A B \<Longrightarrow> k \<in> set (k_keys A) \<Longrightarrow> index_of (k_keys B) k = index_of (k_keys A) k"
  by (simp add: later_store_def index_of_prefix)

lemma later_store_mem: "later_store A B \<Longrightarrow> k \<in> set (k_keys A) \<Longrightarrow> k \<in> set (k_keys B)"
  by (auto simp: later_store_def dest: set_mono_prefix)

text \<open>Two patterns: a node is merged and then joined to an older node, as target or as source.\<close>

lemma merge_node_then_rel:
  fixes L n :: string and extra :: "(string \<times> pval) list" and t :: string
  assumes ok: "keyed_ok A" and old: "k0 \<in> set (k_keys A)"
  defines "B \<equiv> fold key_exec [Merge_Node (L, n) extra, Merge_Rel k0 t (L, n)] A"
    and "C \<equiv> fold key_exec [Merge_Node (L, n) extra, Merge_Rel (L, n) t k0] A"
  shows "merge_rel (index_of (k_keys A) k0, t, fst (merge_node (Node L n extra) L ''name'' (store_of A)))
           (snd (merge_node (Node L n extra) L ''name'' (store_of A))) = store_of B"
    and "merge_rel (fst (merge_node (Node L n extra) L ''name'' (store_of A)), t, index_of (k_keys A) k0)
           (snd (merge_node (Node L n extra) L ''name'' (store_of A))) = store_of C"
    and "fst (merge_node (Node L n extra) L ''name'' (store_of A)) = index_of (k_keys B) (L, n)"
    and "fst (merge_node (Node L n extra) L ''name'' (store_of A)) = index_of (k_keys C) (L, n)"
    and "later_store A B" and "later_store A C"
    and "(L, n) \<in> set (k_keys B)" and "(L, n) \<in> set (k_keys C)"
proof -
  define A1 where "A1 = key_exec (Merge_Node (L, n) extra) A"
  have keys1: "k_keys A1 = add_key (L, n) (k_keys A)" by (simp add: A1_def)
  have m: "merge_node (Node L n extra) L ''name'' (store_of A) = (index_of (k_keys A1) (L, n), store_of A1)"
    using merge_node_store_of [OF ok] by (simp add: A1_def)
  have ok1: "keyed_ok A1" unfolding A1_def by (rule keyed_ok_merge_node [OF ok])
  have new: "(L, n) \<in> set (k_keys A1)" by (simp add: keys1 set_add_key)
  have old1: "k0 \<in> set (k_keys A1)" using old by (simp add: keys1 set_add_key)
  have h: "index_of (k_keys A) k0 = index_of (k_keys A1) k0"
    using old by (simp add: keys1 index_of_add_key)
  have B: "B = key_exec (Merge_Rel k0 t (L, n)) A1" and C: "C = key_exec (Merge_Rel (L, n) t k0) A1"
    by (simp_all add: B_def C_def A1_def)
  have keysB: "k_keys B = k_keys A1" and keysC: "k_keys C = k_keys A1"
    by (simp_all add: B C)
  show "merge_rel (index_of (k_keys A) k0, t, fst (merge_node (Node L n extra) L ''name'' (store_of A)))
           (snd (merge_node (Node L n extra) L ''name'' (store_of A))) = store_of B"
    unfolding m h B by (simp add: merge_rel_store_of)
  show "merge_rel (fst (merge_node (Node L n extra) L ''name'' (store_of A)), t, index_of (k_keys A) k0)
           (snd (merge_node (Node L n extra) L ''name'' (store_of A))) = store_of C"
    unfolding m h C by (simp add: merge_rel_store_of)
  show "fst (merge_node (Node L n extra) L ''name'' (store_of A)) = index_of (k_keys B) (L, n)"
    by (simp add: m keysB)
  show "fst (merge_node (Node L n extra) L ''name'' (store_of A)) = index_of (k_keys C) (L, n)"
    by (simp add: m keysC)
  have "keyed_ok B" unfolding B by (rule keyed_ok_merge_rel [OF ok1 old1 new])
  then show "later_store A B" by (simp add: later_store_def keysB keys1 prefix_add_key)
  have "keyed_ok C" unfolding C by (rule keyed_ok_merge_rel [OF ok1 new old1])
  then show "later_store A C" by (simp add: later_store_def keysC keys1 prefix_add_key)
  show "(L, n) \<in> set (k_keys B)" "(L, n) \<in> set (k_keys C)"
    using new by (simp_all add: keysB keysC)
qed

lemma merge_node_alone:
  fixes L n :: string and extra :: "(string \<times> pval) list"
  assumes ok: "keyed_ok A"
  defines "B \<equiv> fold key_exec [Merge_Node (L, n) extra] A"
  shows "snd (merge_node (Node L n extra) L ''name'' (store_of A)) = store_of B"
    and "fst (merge_node (Node L n extra) L ''name'' (store_of A)) = index_of (k_keys B) (L, n)"
    and "later_store A B" and "(L, n) \<in> set (k_keys B)"
  using merge_node_store_of [OF ok, where L = L and n = n and extra = extra]
    keyed_ok_merge_node [OF ok, where k = "(L, n)" and extra = extra]
  by (simp_all add: B_def later_store_def prefix_add_key set_add_key)

lemma neo_script_keyed:
  fixes f :: "string option"
  assumes ok: "keyed_ok A" and lib: "libk \<in> set (k_keys A)"
  defines "B \<equiv> fold key_exec (script_ops libk f) A"
  shows "neo_script (index_of (k_keys A) libk) f (store_of A)
           = (map_option (index_of (k_keys B)) (script_key f), store_of B)"
    and "later_store A B"
    and "\<forall>k \<in> set_option (script_key f). k \<in> set (k_keys B)"
proof -
  show "neo_script (index_of (k_keys A) libk) f (store_of A)
           = (map_option (index_of (k_keys B)) (script_key f), store_of B)"
    using merge_node_then_rel(1,3) [OF ok lib, where L = "''Script''" and n = "the f" and extra = "[]" and t = "''HAS_SCRIPT''"]
    by (simp add: neo_script_def script_key_def script_ops_def B_def split_beta)
  show "later_store A B"
    using merge_node_then_rel(5) [OF ok lib, where L = "''Script''" and n = "the f" and extra = "[]" and t = "''HAS_SCRIPT''"]
      later_store_refl [OF ok]
    by (simp add: script_ops_def B_def)
  show "\<forall>k \<in> set_option (script_key f). k \<in> set (k_keys B)"
    using merge_node_then_rel(7) [OF ok lib, where L = "''Script''" and n = "the f" and extra = "[]" and t = "''HAS_SCRIPT''"]
    by (simp add: script_key_def script_ops_def B_def)
qed

lemma neo_module_keyed:
  fixes m :: string
  assumes ok: "keyed_ok A" and sk: "\<forall>k \<in> set_option sk. k \<in> set (k_keys A)"
  defines "B \<equiv> fold key_exec (module_ops sk m) A"
  shows "neo_module (map_option (index_of (k_keys A)) sk) m (store_of A)
           = (Some (index_of (k_keys B) (''Module'', m)), store_of B)"
    and "later_store A B"
    and "(''Module'', m) \<in> set (k_keys B)"
proof (atomize (full), cases sk)
  case None
  with merge_node_alone [OF ok, where L = "''Module''" and n = m and extra = "[]"]
  show "neo_module (map_option (index_of (k_keys A)) sk) m (store_of A)
           = (Some (index_of (k_keys B) (''Module'', m)), store_of B)
        \<and> later_store A B \<and> (''Module'', m) \<in> set (k_keys B)"
    by (simp add: neo_module_def module_ops_def B_def split_beta)
next
  case (Some s)
  with sk have s: "s \<in> set (k_keys A)" by simp
  from Some merge_node_then_rel(1,3,5,7) [OF ok s, where L = "''Module''" and n = m and extra = "[]" and t = "''CONTAIN_MODULE''"]
  show "neo_module (map_option (index_of (k_keys A)) sk) m (store_of A)
           = (Some (index_of (k_keys B) (''Module'', m)), store_of B)
        \<and> later_store A B \<and> (''Module'', m) \<in> set (k_keys B)"
    by (simp add: neo_module_def module_ops_def B_def split_beta)
qed

lemma neo_doc_keyed:
  fixes item :: json_item
  assumes ok: "keyed_ok A" and owner: "owner \<in> set (k_keys A)"
  defines "B \<equiv> fold key_exec (doc_ops item owner) A"
  shows "neo_doc item (index_of (k_keys A) owner) (store_of A) = store_of B"
    and "later_store A B"
  using merge_node_then_rel(1,5) [OF ok owner, where L = "''Description''"
      and n = "j_id item @ ''_desc''" and extra = "[(''content'', PStr (the (j_doc item)))]"
      and t = "''HAS_DESCRIPTION''"]
    later_store_refl [OF ok]
  by (simp_all add: neo_doc_def doc_ops_def B_def split_beta)

lemma neo_returns_keyed:
  fixes item :: json_item
  assumes ok: "keyed_ok A" and api: "(''API'', j_id item) \<in> set (k_keys A)"
  defines "B \<equiv> fold key_exec (returns_ops item) A"
  shows "neo_returns item (index_of (k_keys A) (''API'', j_id item)) (store_of A) = store_of B"
    and "later_store A B"
  using merge_node_then_rel(1,5) [OF ok api, where L = "''ReturnValue''"
      and n = "j_id item @ ''_ret''" and extra = "[(''content'', PStr (the (j_returns_doc item)))]"
      and t = "''HAS_RETURN_VALUE''"]
    later_store_refl [OF ok]
  by (simp_all add: neo_returns_def returns_ops_def B_def split_beta)

lemma neo_param_keyed:
  fixes item :: json_item and entry :: "string \<times> param_info"
  assumes ok: "keyed_ok A" and api: "(''API'', j_id item) \<in> set (k_keys A)"
  defines "B \<equiv> fold key_exec (param_ops item entry) A"
  shows "neo_param item (index_of (k_keys A) (''API'', j_id item)) entry (store_of A) = store_of B"
    and "later_store A B"
  using merge_node_then_rel(1,5) [OF ok api, where L = "''Parameter''"
      and n = "j_id item @ ''_'' @ real_param_name entry"
      and extra = "optional_props (snd entry)"
      and t = "''HAS_PARAMETER''"]
  by (simp_all add: neo_param_def param_ops_def param_key_def B_def split_beta Let_def)

lemma neo_params_keyed:
  fixes item :: json_item
  assumes ok: "keyed_ok A" and api: "(''API'', j_id item) \<in> set (k_keys A)"
  shows "fold (neo_param item (index_of (k_keys A) (''API'', j_id item))) es (store_of A)
           = store_of (fold key_exec (concat (map (param_ops item) es)) A)
         \<and> later_store A (fold key_exec (concat (map (param_ops item) es)) A)"
  using ok api
proof (induction es arbitrary: A)
  case Nil
  then show ?case by (simp add: later_store_refl)
next
  case (Cons e es)
  define B where "B = fold key_exec (param_ops item e) A"
  note step = neo_param_keyed [OF Cons.prems, where entry = e, folded B_def]
  from step(2) have okB: "keyed_ok B" by (simp add: later_store_def)
  from step(2) Cons.prems(2) have apiB: "(''API'', j_id item) \<in> set (k_keys B)"
    by (rule later_store_mem)
  from step(2) Cons.prems(2)
  have h: "index_of (k_keys A) (''API'', j_id item) = index_of (k_keys B) (''API'', j_id item)"
    by (simp add: later_store_index)
  from Cons.IH [OF okB apiB] step
  show ?case
    unfolding h by (auto simp: B_def intro: later_store_trans)
qed

lemma neo_class_keyed:
  fixes item :: json_item
  assumes ok: "keyed_ok A" and sk: "\<forall>k \<in> set_option sk. k \<in> set (k_keys A)"
    and mk: "truthy (j_module item) \<longrightarrow>
               (''Module'', the (j_module item)) \<in> set (k_keys A)
               \<and> mh = Some (index_of (k_keys A) (''Module'', the (j_module item)))"
  shows "neo_class item (map_option (index_of (k_keys A)) sk) mh (store_of A)
           = store_of (fold key_exec (class_ops item sk) A)
         \<and> later_store A (fold key_exec (class_ops item sk) A)"
proof -
  let ?m = "(''Module'', class_module item)" and ?c = "(''Class'', j_id item)"
  define A1 where "A1 = fold key_exec
     (if truthy (j_module item) then [] else module_ops sk (fallback_module (j_class item))) A"
  have first: "(if \<not> truthy (j_module item)
                then neo_module (map_option (index_of (k_keys A)) sk) (fallback_module (j_class item)) (store_of A)
                else (mh, store_of A))
               = (Some (index_of (k_keys A1) ?m), store_of A1)"
    and l1: "later_store A A1" and m1: "?m \<in> set (k_keys A1)"
    using neo_module_keyed [OF ok sk, where m = "fallback_module (j_class item)"] mk
      later_store_refl [OF ok]
    by (auto simp: A1_def class_module_def)
  from l1 have ok1: "keyed_ok A1" by (simp add: later_store_def)
  define A2 where "A2 = fold key_exec [Merge_Node ?c [], Merge_Rel ?m ''INCLUDE'' ?c] A1"
  note cls = merge_node_then_rel(1,3,5,7) [OF ok1 m1, where L = "''Class''" and n = "j_id item"
      and extra = "[]" and t = "''INCLUDE''", folded A2_def]
  from cls(3) have ok2: "keyed_ok A2" by (simp add: later_store_def)
  note doc = neo_doc_keyed [OF ok2 cls(4), where item = item]
  have "neo_class item (map_option (index_of (k_keys A)) sk) mh (store_of A)
          = store_of (fold key_exec (doc_ops item ?c) A2)"
    using cls(1,2) doc(1) by (simp add: neo_class_def first split_beta Let_def)
  moreover have "fold key_exec (class_ops item sk) A = fold key_exec (doc_ops item ?c) A2"
    by (simp add: class_ops_def A2_def A1_def)
  moreover have "later_store A (fold key_exec (doc_ops item ?c) A2)"
    using l1 cls(3) doc(2) by (blast intro: later_store_trans)
  ultimately show ?thesis by simp
qed

lemma neo_api_keyed:
  fixes item :: json_item
  assumes ok: "keyed_ok A" and mk: "\<forall>k \<in> set_option mk. k \<in> set (k_keys A)"
  shows "neo_api item (map_option (index_of (k_keys A)) mk) (store_of A)
           = store_of (fold key_exec (api_ops item mk) A)
         \<and> later_store A (fold key_exec (api_ops item mk) A)"
proof -
  let ?a = "(''API'', j_id item)"
  let ?member = "j_type item = ''member_function'' \<and> truthy (j_class item)"
  define h where "h = fst (merge_node (Node ''API'' (j_id item) []) ''API'' ''name'' (store_of A))"
  define g1 where "g1 = snd (merge_node (Node ''API'' (j_id item) []) ''API'' ''name'' (store_of A))"
  define g2 where "g2 =
     (if ?member then
        merge_rel (fst (merge_node (Node ''Class'' (the (j_class item)) []) ''Class'' ''name'' g1),
                   ''HAS_METHOD'', h)
          (snd (merge_node (Node ''Class'' (the (j_class item)) []) ''Class'' ''name'' g1))
      else (case map_option (index_of (k_keys A)) mk of
              Some m \<Rightarrow> merge_rel (m, ''HAS_METHOD'', h) g1
            | None \<Rightarrow> g1))"
  have unf: "neo_api item (map_option (index_of (k_keys A)) mk) (store_of A)
               = fold (neo_param item h) (j_parameters item) (neo_returns item h (neo_doc item h g2))"
    by (cases mk) (simp_all add: neo_api_def split_beta Let_def h_def g1_def g2_def)
  define A1 where "A1 = fold key_exec [Merge_Node ?a []] A"
  note api = merge_node_alone [OF ok, where L = "''API''" and n = "j_id item" and extra = "[]",
      folded A1_def]
  have h1: "h = index_of (k_keys A1) ?a" and g1: "g1 = store_of A1"
    using api(1,2) by (simp_all add: h_def g1_def)
  from api(3) have ok1: "keyed_ok A1" by (simp add: later_store_def)
  define ops2 where "ops2 =
     (if ?member
      then [Merge_Node (''Class'', the (j_class item)) [],
            Merge_Rel (''Class'', the (j_class item)) ''HAS_METHOD'' ?a]
      else (case mk of Some m \<Rightarrow> [Merge_Rel m ''HAS_METHOD'' ?a] | None \<Rightarrow> []))"
  define A2 where "A2 = fold key_exec ops2 A1"
  have second: "g2 = store_of A2 \<and> later_store A1 A2"
  proof (cases ?member)
    case True
    then have "g2 = merge_rel (fst (merge_node (Node ''Class'' (the (j_class item)) []) ''Class'' ''name'' (store_of A1)),
                   ''HAS_METHOD'', index_of (k_keys A1) ?a)
          (snd (merge_node (Node ''Class'' (the (j_class item)) []) ''Class'' ''name'' (store_of A1)))"
      by (simp add: g2_def h1 g1)
    moreover from True have "A2 = fold key_exec [Merge_Node (''Class'', the (j_class item)) [],
            Merge_Rel (''Class'', the (j_class item)) ''HAS_METHOD'' ?a] A1"
      by (simp add: A2_def ops2_def)
    ultimately show ?thesis
      using merge_node_then_rel(2,6) [OF ok1 api(4), where L = "''Class''" and n = "the (j_class item)"
          and extra = "[]" and t = "''HAS_METHOD''"]
      by simp
  next
    case False
    show ?thesis
    proof (cases mk)
      case None
      with False have "g2 = store_of A1" and "A2 = A1"
        by (auto simp: g2_def g1 A2_def ops2_def)
      with ok1 show ?thesis by (simp add: later_store_refl)
    next
      case (Some m)
      with mk have m: "m \<in> set (k_keys A)" by simp
      with api(3) have hm: "index_of (k_keys A) m = index_of (k_keys A1) m"
        by (simp add: later_store_index)
      from m api(3) have m1: "m \<in> set (k_keys A1)" by (auto intro: later_store_mem)
      from False Some have "g2 = merge_rel (index_of (k_keys A1) m, ''HAS_METHOD'', index_of (k_keys A1) ?a) (store_of A1)"
        and A2: "A2 = key_exec (Merge_Rel m ''HAS_METHOD'' ?a) A1"
        by (auto simp: g2_def g1 h1 hm A2_def ops2_def)
      then have "g2 = store_of A2" by (simp add: merge_rel_store_of)
      moreover from keyed_ok_merge_rel [OF ok1 m1 api(4)] have "later_store A1 A2"
        by (simp add: A2 later_store_def)
      ultimately show ?thesis by simp
    qed
  qed
  then have g2: "g2 = store_of A2" and l2: "later_store A1 A2" by simp_all
  from l2 have ok2: "keyed_ok A2" by (simp add: later_store_def)
  from l2 api(4) have a2: "?a \<in> set (k_keys A2)" by (rule later_store_mem)
  from l2 api(4) have h2: "h = index_of (k_keys A2) ?a"
    by (simp add: h1 later_store_index)
  define A3 where "A3 = fold key_exec (doc_ops item ?a) A2"
  note doc = neo_doc_keyed [OF ok2 a2, where item = item, folded A3_def]
  from doc(2) have ok3: "keyed_ok A3" by (simp add: later_store_def)
  from doc(2) a2 have a3: "?a \<in> set (k_keys A3)" by (rule later_store_mem)
  from doc(2) a2 have h3: "h = index_of (k_keys A3) ?a"
    by (simp add: h2 later_store_index)
  define A4 where "A4 = fold key_exec (returns_ops item) A3"
  note ret = neo_returns_keyed [OF ok3 a3, folded A4_def]
  from ret(2) have ok4: "keyed_ok A4" by (simp add: later_store_def)
  from ret(2) a3 have a4: "?a \<in> set (k_keys A4)" by (rule later_store_mem)
  from ret(2) a3 have h4: "h = index_of (k_keys A4) ?a"
    by (simp add: h3 later_store_index)
  define A5 where "A5 = fold key_exec (concat (map (param_ops item) (j_parameters item))) A4"
  note par = neo_params_keyed [OF ok4 a4, where es = "j_parameters item", folded A5_def]
  have d: "neo_doc item h g2 = store_of A3" using doc(1) by (simp add: g2 h2)
  have r: "neo_returns item h (store_of A3) = store_of A4" using ret(1) by (simp add: h3)
  have p: "fold (neo_param item h) (j_parameters item) (store_of A4) = store_of A5"
    using par by (simp add: h4)
  have all: "fold key_exec (api_ops item mk) A = A5"
    by (simp add: api_ops_def A5_def A4_def A3_def A2_def ops2_def A1_def)
  have "neo_api item (map_option (index_of (k_keys A)) mk) (store_of A) = store_of A5"
    by (simp only: unf d r p)
  moreover have "later_store A A5"
    using api(3) l2 doc(2) ret(2) par by (blast intro: later_store_trans)
  ultimately show ?thesis by (simp only: all simp_thms)
qed

lemma neo_item_keyed:
  fixes item :: json_item
  assumes ok: "keyed_ok A" and lib: "libk \<in> set (k_keys A)"
  shows "neo_item (index_of (k_keys A) libk) item (store_of A)
           = store_of (fold key_exec (item_ops libk item) A)
         \<and> later_store A (fold key_exec (item_ops libk item) A)"
proof -
  let ?sk = "script_key (j_file item)" and ?mk = "module_key (j_module item)"
  define r1 where "r1 = neo_script (index_of (k_keys A) libk) (j_file item) (store_of A)"
  define r2 where "r2 =
     (if truthy (j_module item) then neo_module (fst r1) (the (j_module item)) (snd r1)
      else (None, snd r1))"
  have unf: "neo_item (index_of (k_keys A) libk) item (store_of A)
               = (if j_type item = ''class'' then neo_class item (fst r1) (fst r2) (snd r2)
                  else if j_type item = ''function'' \<or> j_type item = ''member_function''
                       then neo_api item (fst r2) (snd r2)
                       else snd r2)"
    by (simp add: neo_item_def split_beta Let_def r1_def r2_def)
  define A1 where "A1 = fold key_exec (script_ops libk (j_file item)) A"
  note scr = neo_script_keyed [OF ok lib, where f = "j_file item", folded A1_def]
  have r1: "r1 = (map_option (index_of (k_keys A1)) ?sk, store_of A1)"
    using scr(1) by (simp add: r1_def)
  from scr(2) have ok1: "keyed_ok A1" by (simp add: later_store_def)
  define ops2 where "ops2 = (if truthy (j_module item) then module_ops ?sk (the (j_module item)) else [])"
  define A2 where "A2 = fold key_exec ops2 A1"
  have second: "r2 = (map_option (index_of (k_keys A2)) ?mk, store_of A2)
                \<and> later_store A1 A2 \<and> (\<forall>k \<in> set_option ?mk. k \<in> set (k_keys A2))"
  proof (cases "truthy (j_module item)")
    case True
    then have "r2 = neo_module (map_option (index_of (k_keys A1)) ?sk) (the (j_module item)) (store_of A1)"
      and "A2 = fold key_exec (module_ops ?sk (the (j_module item))) A1"
      and "?mk = Some (''Module'', the (j_module item))"
      by (simp_all add: r2_def r1 A2_def ops2_def module_key_def)
    with neo_module_keyed [OF ok1 scr(3), where m = "the (j_module item)"]
    show ?thesis by simp
  next
    case False
    then have "r2 = (None, store_of A1)" and "A2 = A1" and "?mk = None"
      by (simp_all add: r2_def r1 A2_def ops2_def module_key_def)
    with ok1 show ?thesis by (simp add: later_store_refl)
  qed
  then have r2: "r2 = (map_option (index_of (k_keys A2)) ?mk, store_of A2)"
    and l2: "later_store A1 A2" and m2: "\<forall>k \<in> set_option ?mk. k \<in> set (k_keys A2)"
    by simp_all
  from l2 have ok2: "keyed_ok A2" by (simp add: later_store_def)
  from l2 scr(3) have sk2: "\<forall>k \<in> set_option ?sk. k \<in> set (k_keys A2)"
    by (auto intro: later_store_mem)
  from l2 scr(3) have hs: "fst r1 = map_option (index_of (k_keys A2)) ?sk"
    by (cases ?sk) (simp_all add: r1 later_store_index)
  define ops3 where "ops3 =
     (if j_type item = ''class'' then class_ops item ?sk
      else if j_type item = ''function'' \<or> j_type item = ''member_function''
           then api_ops item ?mk else [])"
  define A3 where "A3 = fold key_exec ops3 A2"
  have third: "neo_item (index_of (k_keys A) libk) item (store_of A) = store_of A3
               \<and> later_store A2 A3"
  proof (cases "j_type item = ''class''")
    case True
    have "truthy (j_module item) \<longrightarrow>
               (''Module'', the (j_module item)) \<in> set (k_keys A2)
               \<and> fst r2 = Some (index_of (k_keys A2) (''Module'', the (j_module item)))"
      using m2 by (simp add: module_key_def r2)
    from neo_class_keyed [OF ok2 sk2 this] True
    show ?thesis by (simp add: unf hs r2 A3_def ops3_def)
  next
    case False
    note nc = this
    show ?thesis
    proof (cases "j_type item = ''function'' \<or> j_type item = ''member_function''")
      case True
      with nc neo_api_keyed [OF ok2 m2, of item]
      show ?thesis by (simp add: unf r2 A3_def ops3_def)
    next
      case False
      with nc ok2 show ?thesis by (simp add: unf r2 A3_def ops3_def later_store_refl)
    qed
  qed
  have all: "fold key_exec (item_ops libk item) A = A3"
    by (simp add: item_ops_def A3_def ops3_def A2_def ops2_def A1_def)
  have "later_store A A3"
    using scr(2) l2 third by (blast intro: later_store_trans)
  with third show ?thesis by (simp only: all simp_thms)
qed

lemma neo_items_keyed:
  assumes ok: "keyed_ok A" and lib: "libk \<in> set (k_keys A)"
  shows "fold (neo_item (index_of (k_keys A) libk)) items (store_of A)
           = store_of (fold key_exec (concat (map (item_ops libk) items)) A)
         \<and> later_store A (fold key_exec (concat (map (item_ops libk) items)) A)"
  using ok lib
proof (induction items arbitrary: A)
  case Nil
  then show ?case by (simp add: later_store_refl)
next
  case (Cons item items)
  define B where "B = fold key_exec (item_ops libk item) A"
  from neo_item_keyed [OF Cons.prems, of item]
  have step: "neo_item (index_of (k_keys A) libk) item (store_of A) = store_of B"
    and l: "later_store A B"
    by (simp_all add: B_def)
  from l have okB: "keyed_ok B" by (simp add: later_store_def)
  from l Cons.prems(2) have libB: "libk \<in> set (k_keys B)" by (rule later_store_mem)
  from l Cons.prems(2) have h: "index_of (k_keys A) libk = index_of (k_keys B) libk"
    by (simp add: later_store_index)
  from Cons.IH [OF okB libB] step l
  show ?case unfolding h by (auto simp: B_def intro: later_store_trans)
qed

subsection \<open>The whole write, by key\<close>

lemma write_keyed:
  fixes library_name :: string and data_list :: "json_item list"
  assumes ok: "keyed_ok A"
  defines "B \<equiv> fold key_exec (data_ops library_name data_list)
                  (key_exec (Ensure_Node (''Library'', library_name)) A)"
  shows "write_to_neo4j_py2neo library_name data_list (store_of A) = store_of B"
    and "keyed_ok B" and "(''Library'', library_name) \<in> set (k_keys B)"
proof -
  let ?libk = "(''Library'', library_name)"
  define A0 where "A0 = key_exec (Ensure_Node ?libk) A"
  have ok0: "keyed_ok A0" unfolding A0_def by (rule keyed_ok_ensure [OF ok])
  have lib0: "?libk \<in> set (k_keys A0)" by (simp add: A0_def)
  note items = neo_items_keyed [OF ok0 lib0, of data_list]
  have "write_to_neo4j_py2neo library_name data_list (store_of A)
          = fold (neo_item (index_of (k_keys A0) ?libk)) data_list (store_of A0)"
    unfolding write_to_neo4j_py2neo_def ensure_store_of [OF ok] by (simp add: A0_def)
  with items show "write_to_neo4j_py2neo library_name data_list (store_of A) = store_of B"
    by (simp add: B_def data_ops_def A0_def)
  from items show "keyed_ok B" by (simp add: B_def data_ops_def A0_def later_store_def)
  from items lib0 show "?libk \<in> set (k_keys B)"
    by (auto simp: B_def data_ops_def A0_def intro: later_store_mem)
qed

lemma item_ops_merge: "\<forall>op \<in> set (item_ops libk item). is_merge op"
  by (auto simp: item_ops_def script_ops_def module_ops_def class_ops_def api_ops_def doc_ops_def
      returns_ops_def param_ops_def split: option.splits if_splits)

lemma data_ops_merge: "\<forall>op \<in> set (data_ops library_name data_list). is_merge op"
  using item_ops_merge by (auto simp: data_ops_def)

lemma fallback_ops:
  assumes "item \<in> set data_list" and "j_type item = ''class''" and "\<not> truthy (j_module item)"
  shows "Merge_Node (''Module'', fallback_module (j_class item)) [] \<in> set (data_ops library_name data_list)"
    and "Merge_Node (''Class'', j_id item) [] \<in> set (data_ops library_name data_list)"
    and "Merge_Rel (''Module'', fallback_module (j_class item)) ''INCLUDE'' (''Class'', j_id item)
           \<in> set (data_ops library_name data_list)"
  using assms
  by (auto simp: data_ops_def item_ops_def class_ops_def module_ops_def class_module_def
      intro!: bexI [of _ item])

lemma written_node:
  assumes "Merge_Node (L, n) extra \<in> set (data_ops library_name data_list)"
  shows "find_node L ''name'' (PStr n) (st_nodes (write_to_neo4j_py2neo library_name data_list empty_store))
           = Some (index_of (k_keys (fold key_exec (data_ops library_name data_list)
                       (key_exec (Ensure_Node (''Library'', library_name)) empty_keyed))) (L, n))"
proof -
  let ?A0 = "key_exec (Ensure_Node (''Library'', library_name)) empty_keyed"
  let ?B = "fold key_exec (data_ops library_name data_list) ?A0"
  have e: "empty_store = store_of empty_keyed" and ok: "keyed_ok empty_keyed"
    using empty_store_keyed by simp_all
  note w = write_keyed [OF ok, of library_name data_list]
  from assms have "(L, n) \<in> set (concat (map op_key (data_ops library_name data_list)))"
    by (force simp: image_iff)
  then have "(L, n) \<in> set (k_keys ?B)"
    by (simp add: fold_key_exec [OF data_ops_merge] set_fold_add_key)
  with w(1,2) show ?thesis by (simp add: e find_node_store_of)
qed

lemma written_rel:
  assumes "Merge_Rel k1 t k2 \<in> set (data_ops library_name data_list)"
  shows "(index_of (k_keys (fold key_exec (data_ops library_name data_list)
                       (key_exec (Ensure_Node (''Library'', library_name)) empty_keyed))) k1, t,
          index_of (k_keys (fold key_exec (data_ops library_name data_list)
                       (key_exec (Ensure_Node (''Library'', library_name)) empty_keyed))) k2)
           \<in> st_rels (write_to_neo4j_py2neo library_name data_list empty_store)"
proof -
  let ?A0 = "key_exec (Ensure_Node (''Library'', library_name)) empty_keyed"
  let ?B = "fold key_exec (data_ops library_name data_list) ?A0"
  have e: "empty_store = store_of empty_keyed" and ok: "keyed_ok empty_keyed"
    using empty_store_keyed by simp_all
  note w = write_keyed [OF ok, of library_name data_list]
  from assms have "(k1, t, k2) \<in> k_rels ?B"
    by (force simp: fold_key_exec [OF data_ops_merge])
  then have "(index_of (k_keys ?B) k1, t, index_of (k_keys ?B) k2) \<in> st_rels (store_of ?B)"
    by (force simp: store_of_def)
  with w(1) show ?thesis by (simp add: e)
qed

subsection \<open>The fallback module of a class record on both paths\<close>

text \<open>
  A class record without \<^verbatim>\<open>module\<close> is put into \<open>flask.app\<close> when its \<^verbatim>\<open>class\<close>
  entry is \<open>Flask\<close> or \<open>App\<close>, and into \<open>UnknownModule\<close> otherwise: the graph has the
  typed Module node including the class, and the store has the Module node with an
  \<^verbatim>\<open>INCLUDE\<close> relationship to the Class node.
\<close>

lemma fallback_by_class_entry:
  fixes library_name :: string
  assumes "item \<in> set data_list" and "j_type item = ''class''" and "\<not> truthy (j_module item)"
  defines "fb \<equiv> (if j_class item = Some ''Flask'' \<or> j_class item = Some ''App''
                  then ''flask.app'' else ''UnknownModule'')"
  shows "(uri_encode (CODE ''Module'') fb, RDF_type, CODE ''Module'')
           \<in> graph (build_knowledge_graph data_list library_name)
       \<and> (uri_encode (CODE ''Module'') fb, CODE ''include'', uri_encode (CODE ''Class'') (j_id item))
           \<in> graph (build_knowledge_graph data_list library_name)
       \<and> (\<exists>m c. find_node ''Module'' ''name'' (PStr fb)
                    (st_nodes (write_to_neo4j_py2neo library_name data_list empty_store)) = Some m
              \<and> find_node ''Class'' ''name'' (PStr (j_id item))
                    (st_nodes (write_to_neo4j_py2neo library_name data_list empty_store)) = Some c
              \<and> (m, ''INCLUDE'', c)
                    \<in> st_rels (write_to_neo4j_py2neo library_name data_list empty_store))"
proof -
  have fb: "fb = fallback_module (j_class item)" by (simp add: fb_def fallback_module_def)
  from build_knowledge_graph_split [OF assms(1), of library_name]
  obtain st where st: "module_map_ok st"
    and sub: "graph (process_item (library_node_of library_name) item st)
                \<subseteq> graph (build_knowledge_graph data_list library_name)"
    by blast
  from process_item_class_fallback [OF st assms(2,3)] sub
  have rdf: "(uri_encode (CODE ''Module'') fb, RDF_type, CODE ''Module'')
           \<in> graph (build_knowledge_graph data_list library_name)
       \<and> (uri_encode (CODE ''Module'') fb, CODE ''include'', uri_encode (CODE ''Class'') (j_id item))
           \<in> graph (build_knowledge_graph data_list library_name)"
    unfolding fb by blast
  note ops = fallback_ops [OF assms(1-3), of library_name, folded fb]
  from written_node [OF ops(1)] written_node [OF ops(2)] written_rel [OF ops(3)]
  have "\<exists>m c. find_node ''Module'' ''name'' (PStr fb)
                    (st_nodes (write_to_neo4j_py2neo library_name data_list empty_store)) = Some m
              \<and> find_node ''Class'' ''name'' (PStr (j_id item))
                    (st_nodes (write_to_neo4j_py2neo library_name data_list empty_store)) = Some c
              \<and> (m, ''INCLUDE'', c)
                    \<in> st_rels (write_to_neo4j_py2neo library_name data_list empty_store)"
    by blast
  with rdf show ?thesis by blast
qed

section \<open>Claims about the extractor\<close>

text \<open>
  C1: for every record of one extraction run, \<^verbatim>\<open>from_init\<close> is true if and only if
  the last dotted segment of the record's \<^verbatim>\<open>_id\<close> is in the export set, which is the
  union of the statically parsed symbols and the elements of the root module's
  \<^verbatim>\<open>__all__\<close> when that is a list, a tuple or a set; otherwise the flag keeps its
  default \<open>False\<close>. The export-only list holds exactly the marked records.
\<close>

theorem from_init_iff_exported:
  assumes "main h root body dyn_all = Some (init_only_api, all_api)"
    and "x \<in> set all_api"
  shows "(from_init x \<longleftrightarrow>
           last_segment (item_id x) \<in> parse_init_file body \<union>
             (case dyn_all of All_List xs \<Rightarrow> set xs | All_Tuple xs \<Rightarrow> set xs
              | All_Set s \<Rightarrow> s | _ \<Rightarrow> {}))
         \<and> init_only_api = filter from_init all_api"
proof -
  from assms(1) obtain E all_api0 where
    E: "update_exported (parse_init_file body) dyn_all = Some E"
    and t: "traverse h root = Some all_api0"
    and all: "all_api = map (mark_item E) all_api0"
    and init: "init_only_api = filter from_init all_api"
    by (auto simp: main_def Let_def split: option.splits)
  from assms(2) all obtain y where y: "y \<in> set all_api0" and x: "x = mark_item E y" by auto
  from t y have "\<not> from_init y" by (rule traverse_from_init_False)
  with x have "from_init x \<longleftrightarrow> last_segment (item_id x) \<in> E"
    by (simp add: mark_item_def)
  with init update_exported_eq [OF E] show ?thesis by simp
qed

theorem from_init_iff_exported_witness:
  "\<exists>init_only_api all_api x y.
     main example_heap 0 example_body (All_List [''helper'']) = Some (init_only_api, all_api)
     \<and> x \<in> set all_api \<and> item_id x = ''foo.helper'' \<and> from_init x
     \<and> y \<in> set all_api \<and> item_id y = ''foo.Widget.run'' \<and> \<not> from_init y"
proof -
  let ?E = "parse_init_file example_body \<union> set [''helper'']"
  let ?all = "map (mark_item ?E) example_records"
  let ?x = "mark_item ?E (build_api_item ''foo.helper'' Is_Function helper_info None)"
  let ?y = "mark_item ?E (build_api_item ''foo.Widget.run'' Is_Function
              (bare_info (Some ''foo'')) (Some widget_class))"
  have m: "main example_heap 0 example_body (All_List [''helper''])
             = Some (filter from_init ?all, ?all)"
    by (simp add: main_def example_traverse Let_def)
  have x: "?x \<in> set ?all" and y: "?y \<in> set ?all"
    by (simp_all add: example_records_def)
  have idx: "item_id ?x = ''foo.helper''" and idy: "item_id ?y = ''foo.Widget.run''"
    by (simp_all add: mark_item_def)
  have segs: "last_segment ''foo.helper'' = ''helper''" "last_segment ''foo.Widget.run'' = ''run''"
    by (simp_all add: last_segment_def)
  have E: "parse_init_file example_body = {''core'', ''Widget''}"
    by (simp add: parse_init_file_def example_body_def truthy_def first_segment_def insert_commute)
  from from_init_iff_exported [OF m x] idx segs E have "from_init ?x" by simp
  moreover from from_init_iff_exported [OF m y] idy segs E have "\<not> from_init ?y" by simp
  ultimately show ?thesis using m x y idx idy by blast
qed

text \<open>
  C4, as stated, fails: under the root module \<open>foo\<close> the member module \<open>foobar\<close>, whose
  first dotted segment is \<open>foobar\<close> and not \<open>foo\<close>, is entered: its module record is in
  the output.
\<close>

theorem foobar_is_entered:
  "traverse example_heap 0 = Some example_records
   \<and> example_records ! 3 = build_api_item ''foobar'' Is_Module (bare_info None) None
   \<and> item_type (example_records ! 3) = ''module''
   \<and> first_segment ''foobar'' = ''foobar'' \<and> first_segment ''foo'' = ''foo''"
  by (simp add: example_traverse example_records_def item_type_build first_segment_def)

text \<open>
  C4, amended: a member of a visited module that is itself a module is recursed into only
  if the first dotted segment of the visited module's name is a string prefix of the
  member's \<^verbatim>\<open>__name__\<close> (an empty name when it has none); a member that fails this
  test is skipped without any effect. As a consequence the name of every module that is
  entered starts with the first dotted segment of the root module's name.
\<close>

theorem recursion_guard_is_prefix:
  "(i < length h \<and> \<not> prefix (first_segment mod_name) (name_or '''' (h ! i)) \<longrightarrow>
      traverse_members recurse h mod_name ((name, Mem_Module i) # rest) visited
        = traverse_members recurse h mod_name rest visited)
   \<and> (traverse h root = Some rs \<and> x \<in> set rs \<and> item_type x = ''module'' \<longrightarrow>
        prefix (first_segment (name_or ''unknown'' (h ! root))) (item_id x))"
proof (intro conjI impI)
  assume "i < length h \<and> \<not> prefix (first_segment mod_name) (name_or '''' (h ! i))"
  then show "traverse_members recurse h mod_name ((name, Mem_Module i) # rest) visited
        = traverse_members recurse h mod_name rest visited"
    by (simp add: Let_def)
next
  assume a: "traverse h root = Some rs \<and> x \<in> set rs \<and> item_type x = ''module''"
  then obtain v' where "traverse_module (Suc (length h)) h root {} = Some (rs, v')"
    by (auto dest: traverse_SomeD)
  from traverse_module_prefix [OF first_segment_no_dot this first_segment_prefix] a
  show "prefix (first_segment (name_or ''unknown'' (h ! root))) (item_id x)" by simp
qed

theorem recursion_guard_is_prefix_witness:
  "(2::nat) < length example_heap
   \<and> \<not> prefix (first_segment ''foo'') (name_or '''' (example_heap ! 2))
   \<and> traverse_members (traverse_module 3 example_heap) example_heap ''foo''
        [(''os'', Mem_Module 2)] {''foo''} = Some ([], {''foo''})
   \<and> traverse example_heap 0 = Some example_records
   \<and> build_api_item ''foobar'' Is_Module (bare_info None) None \<in> set example_records
   \<and> prefix ''foo'' (item_id (build_api_item ''foobar'' Is_Module (bare_info None) None))"
  using recursion_guard_is_prefix [of 2 example_heap "''foo''" "traverse_module 3 example_heap"
      "''os''" "[]" "{''foo''}" 0 example_records
      "build_api_item ''foobar'' Is_Module (bare_info None) None"]
    example_traverse
  by (simp add: example_heap_def example_records_def name_or_def first_segment_def item_type_build)

text \<open>
  C6: when the signature or the source text of a discovered object cannot be retrieved,
  the failure stays local. The traversal of a well-formed package returns; a package that
  differs from it only in which retrievals fail yields the same records in the same order,
  up to the three entries \<^verbatim>\<open>source_code\<close>, \<^verbatim>\<open>signature\<close> and \<^verbatim>\<open>parameters\<close>;
  with every retrieval failing each record has the signature \<open>()\<close> and no source; and for
  a single object a failed signature gives \<open>()\<close> and a failed source gives \<open>None\<close>.
\<close>

theorem retrieval_failure_stays_local:
  assumes "wf_heap h" and "root < length h" and "fail_heap h' = fail_heap h"
  shows "(\<exists>rs rs'. traverse h root = Some rs \<and> traverse h' root = Some rs'
            \<and> map fail_item rs' = map fail_item rs
            \<and> traverse (fail_heap h) root = Some (map fail_item rs))
       \<and> (insp_signature obj = None \<longrightarrow> item_signature (build_api_item full_id cat obj pc) = ''()'')
       \<and> (insp_source obj = None \<longrightarrow> source_code (build_api_item full_id cat obj pc) = None)
       \<and> item_id (build_api_item full_id cat obj pc) = full_id"
proof -
  from assms(1,2) obtain rs where rs: "traverse h root = Some rs"
    using traverse_returns by blast
  from assms(3) have "length h' = length h"
    using length_fail_heap [of h'] length_fail_heap [of h] by simp
  moreover from assms(1,3) have "wf_heap h'"
    using wf_fail_heap [of h'] wf_fail_heap [of h] by simp
  ultimately obtain rs' where rs': "traverse h' root = Some rs'"
    using traverse_returns [of h' root] assms(2) by auto
  from rs have f: "traverse (fail_heap h) root = Some (map fail_item rs)"
    by (simp add: traverse_fail)
  from rs' have "traverse (fail_heap h') root = Some (map fail_item rs')"
    by (simp add: traverse_fail)
  with f assms(3) have "map fail_item rs' = map fail_item rs" by simp
  with rs rs' f show ?thesis
    by (simp add: build_api_item_def Let_def)
qed

theorem retrieval_failure_stays_local_witness:
  "wf_heap example_heap \<and> (0::nat) < length example_heap
   \<and> fail_heap (fail_heap example_heap) = fail_heap example_heap
   \<and> fail_heap example_heap \<noteq> example_heap
   \<and> traverse example_heap 0 = Some example_records
   \<and> traverse (fail_heap example_heap) 0 = Some (map fail_item example_records)
   \<and> item_signature (build_api_item ''foo.Widget.run'' Is_Function
        (bare_info (Some ''foo'')) (Some widget_class)) = ''()''
   \<and> source_code (build_api_item ''foo.Widget.run'' Is_Function
        (bare_info (Some ''foo'')) (Some widget_class)) = None"
proof -
  have twice: "fail_heap (fail_heap example_heap) = fail_heap example_heap"
    by (simp add: fail_heap_def fail_module_def fail_class_def fail_insp_def example_heap_def
        widget_class_def helper_info_def bare_info_def)
  have differs: "fail_heap example_heap \<noteq> example_heap"
    by (simp add: fail_heap_def fail_module_def fail_class_def fail_insp_def example_heap_def
        widget_class_def helper_info_def bare_info_def)
  have len: "(0::nat) < length example_heap"
    by (simp add: example_heap_def)
  note r = retrieval_failure_stays_local [OF wf_example_heap len twice,
      of "bare_info (Some ''foo'')" "''foo.Widget.run''" Is_Function "Some widget_class"]
  from r obtain rs where "traverse example_heap 0 = Some rs"
    and "traverse (fail_heap example_heap) 0 = Some (map fail_item rs)"
    by blast
  then have failing: "traverse (fail_heap example_heap) 0 = Some (map fail_item example_records)"
    by (simp add: example_traverse)
  from r have "item_signature (build_api_item ''foo.Widget.run'' Is_Function
        (bare_info (Some ''foo'')) (Some widget_class)) = ''()''"
    and "source_code (build_api_item ''foo.Widget.run'' Is_Function
        (bare_info (Some ''foo'')) (Some widget_class)) = None"
    by (simp_all add: bare_info_def)
  with wf_example_heap len twice differs example_traverse failing
  show ?thesis
    by simp
qed

text \<open>
  C8, as stated, fails: the class \<open>Widget\<close> of module \<open>foo\<close> is visited under the dotted
  identifier \<open>foo.Widget\<close> (the \<^verbatim>\<open>_id\<close> of its class record), and the record of its
  method \<open>run\<close> has the \<^verbatim>\<open>class\<close> entry \<open>Widget\<close>, the bare \<^verbatim>\<open>__name__\<close>.
\<close>

theorem owning_class_is_bare_name:
  "traverse example_heap 0 = Some example_records
   \<and> item_id (example_records ! 1) = ''foo.Widget''
   \<and> item_type (example_records ! 1) = ''class''
   \<and> item_id (example_records ! 2) = ''foo.Widget.run''
   \<and> item_type (example_records ! 2) = ''member_function''
   \<and> item_class (example_records ! 2) = Some ''Widget''
   \<and> item_class (example_records ! 2) \<noteq> Some ''foo.Widget''"
  by (simp add: example_traverse example_records_def item_type_build item_class_build
      parent_truthy_def widget_class_def)

text \<open>
  C8, amended: every \<^verbatim>\<open>member_function\<close> record was made while the members of one
  class \<open>c\<close> were enumerated, \<open>c\<close> being a member \<open>name\<close> of a module \<open>m\<close> of the package:
  its \<^verbatim>\<open>_id\<close> is the dotted identifier of that class followed by the member's name, and
  its \<^verbatim>\<open>class\<close> entry is the \<^verbatim>\<open>__name__\<close> of that same class \<open>c\<close>, whatever class
  the method was inherited from.
\<close>

theorem owning_class_is_visited_class:
  assumes "traverse h root = Some rs" and "x \<in> set rs" and "item_type x = ''member_function''"
  shows "\<exists>m name c sub a. m \<in> set h \<and> (name, Mem_Class c) \<in> set (py_members m)
           \<and> (sub, a) \<in> set (cls_members c)
           \<and> item_id x = name_or ''unknown'' m @ ''.'' @ name @ ''.'' @ sub
           \<and> item_class x = Some (cls_name c)"
proof -
  let ?P = "\<lambda>x. item_type x = ''member_function'' \<longrightarrow>
     (\<exists>m name c sub a. m \<in> set h \<and> (name, Mem_Class c) \<in> set (py_members m)
           \<and> (sub, a) \<in> set (cls_members c)
           \<and> item_id x = name_or ''unknown'' m @ ''.'' @ name @ ''.'' @ sub
           \<and> item_class x = Some (cls_name c))"
  from assms(1) obtain v' where "traverse_module (Suc (length h)) h root {} = Some (rs, v')"
    by (auto dest: traverse_SomeD)
  then have "\<forall>x \<in> set rs. ?P x"
  proof (rule traverse_module_pred [rotated 4])
    fix m name c sub f
    assume "m \<in> set h" "(name, Mem_Class c) \<in> set (py_members m)"
      "(sub, Attr_Function f) \<in> set (cls_members c) \<or> (sub, Attr_Method f) \<in> set (cls_members c)"
    then obtain a where "m \<in> set h \<and> (name, Mem_Class c) \<in> set (py_members m)
        \<and> (sub, a) \<in> set (cls_members c)"
      by blast
    moreover have "item_class (build_api_item (name_or ''unknown'' m @ ''.'' @ name @ ''.'' @ sub)
        Is_Function f (Some c)) = Some (cls_name c)"
      if "item_type (build_api_item (name_or ''unknown'' m @ ''.'' @ name @ ''.'' @ sub)
        Is_Function f (Some c)) = ''member_function''"
      using that by (simp add: item_type_build item_class_build split: if_splits)
    ultimately show "?P (build_api_item (name_or ''unknown'' m @ ''.'' @ name @ ''.'' @ sub) Is_Function f (Some c))"
      by (intro impI exI [of _ m] exI [of _ name] exI [of _ c] exI [of _ sub] exI [of _ a]) simp
  qed (simp_all add: item_type_build parent_truthy_def)
  with assms(2,3) show ?thesis by blast
qed

theorem owning_class_is_visited_class_witness:
  "traverse example_heap 0 = Some example_records
   \<and> (\<exists>m name c sub a. m \<in> set example_heap \<and> (name, Mem_Class c) \<in> set (py_members m)
           \<and> (sub, a) \<in> set (cls_members c)
           \<and> ''foo.Widget.run'' = name_or ''unknown'' m @ ''.'' @ name @ ''.'' @ sub
           \<and> item_class (example_records ! 2) = Some (cls_name c))"
  using owning_class_is_visited_class [of example_heap 0 example_records "example_records ! 2"]
    example_traverse
  by (simp add: example_records_def item_type_build parent_truthy_def widget_class_def)

section \<open>Claims about the graph builder\<close>

text \<open>
  C3: each class should have one Class entity, to which the \<open>hasMethod\<close> relationships
  of its methods attach. On the two records that the extractor writes for the class
  \<open>flask.Flask\<close> and its method \<open>run\<close> the code does otherwise: the class record makes
  the entity \<open>Classflask_Flask\<close> under the key \<open>flask.Flask\<close>, the method record looks
  its \<^verbatim>\<open>class\<close> entry \<open>Flask\<close> up in the same table, does not find it, and makes a
  second entity \<open>ClassFlask\<close>; the \<open>hasMethod\<close> triple starts at the second one.
\<close>

theorem method_attaches_to_second_class_entity:
  "class_map (build_knowledge_graph flask_records ''Flask 3.0.2'') ''flask.Flask''
     = Some (URIRef ''http://example.org/code#Classflask_Flask'')
   \<and> class_map (build_knowledge_graph flask_records ''Flask 3.0.2'') ''Flask''
     = Some (URIRef ''http://example.org/code#ClassFlask'')
   \<and> (URIRef ''http://example.org/code#ClassFlask'', CODE ''hasMethod'',
        URIRef ''http://example.org/code#APIflask_Flask_run'')
       \<in> graph (build_knowledge_graph flask_records ''Flask 3.0.2'')
   \<and> (URIRef ''http://example.org/code#Classflask_Flask'', CODE ''hasMethod'',
        URIRef ''http://example.org/code#APIflask_Flask_run'')
       \<notin> graph (build_knowledge_graph flask_records ''Flask 3.0.2'')
   \<and> (URIRef ''http://example.org/code#ClassFlask'', RDF_type, CODE ''Class'')
       \<in> graph (build_knowledge_graph flask_records ''Flask 3.0.2'')
   \<and> (URIRef ''http://example.org/code#Classflask_Flask'', RDF_type, CODE ''Class'')
       \<in> graph (build_knowledge_graph flask_records ''Flask 3.0.2'')"
  by (simp add: build_knowledge_graph_def flask_records_def fresh_item_def process_item_def
      handle_script_def handle_module_def handle_class_def handle_api_def handle_doc_def
      handle_returns_def handle_params_def initial_state_def ontology_def library_node_of_def
      truthy_def node_truthy_def uri_encode_def safe_id_def CODE_def CODE_ns_def RDF_type_def
      RDFS_label_def string_literal_def XSD_string_def Let_def)

text \<open>
  C10, as stated, fails: the Description node of a module record is attached when a
  function record of the same input has the same identifier (or one with the same
  sanitised form). Here the function \<open>pkg.util\<close> gets a \<open>hasDescription\<close> triple to the
  node that the module record \<open>pkg.util\<close> created.
\<close>

theorem module_description_gets_attached:
  "util_records ! 0 = (fresh_item ''module'' ''pkg.util'')\<lparr>j_doc := Some ''Utilities.''\<rparr>
   \<and> (uri_encode (CODE ''API'') ''pkg.util'', CODE ''hasDescription'',
        uri_encode (CODE ''Description'') (j_id (util_records ! 0) @ ''_desc''))
       \<in> graph (build_knowledge_graph util_records ''pkg 1.0'')"
  by (simp add: build_knowledge_graph_def util_records_def fresh_item_def process_item_def
      handle_script_def handle_module_def handle_class_def handle_api_def handle_doc_def
      handle_returns_def handle_params_def initial_state_def
      truthy_def node_truthy_def uri_encode_def safe_id_def CODE_def CODE_ns_def Let_def)

text \<open>
  C10, amended: in the graph-serialization path, for every input record with a non-empty
  doc whose kind is neither class, function nor member\_function, a Description entity is
  created and typed, and processing that record adds no \<open>hasDescription\<close> triple at all;
  in the resulting graph the node is the target of a \<open>hasDescription\<close> triple only if
  some class, function or member\_function record of the same input has a non-empty doc
  and the same Description node (an identifier with the same sanitised form).
\<close>

theorem description_of_other_kind_unattached:
  assumes "item \<in> set data_list" and "truthy (j_doc item)"
    and "j_type item \<noteq> ''class''" and "j_type item \<noteq> ''function''"
    and "j_type item \<noteq> ''member_function''"
  shows "(uri_encode (CODE ''Description'') (j_id item @ ''_desc''), RDF_type, CODE ''Description'')
           \<in> graph (build_knowledge_graph data_list library_name)
       \<and> (\<forall>t. t \<in> graph (process_item l item st) \<and> pred_of t = CODE ''hasDescription''
                \<longrightarrow> t \<in> graph st)
       \<and> (\<forall>s. (s, CODE ''hasDescription'', uri_encode (CODE ''Description'') (j_id item @ ''_desc''))
                  \<in> graph (build_knowledge_graph data_list library_name)
              \<longrightarrow> (\<exists>other \<in> set data_list. truthy (j_doc other)
                     \<and> (j_type other = ''class'' \<or> j_type other = ''function''
                          \<or> j_type other = ''member_function'')
                     \<and> uri_encode (CODE ''Description'') (j_id other @ ''_desc'')
                         = uri_encode (CODE ''Description'') (j_id item @ ''_desc'')))"
proof (intro conjI allI impI)
  from build_knowledge_graph_split [OF assms(1)] process_item_description [OF assms(2)]
  show "(uri_encode (CODE ''Description'') (j_id item @ ''_desc''), RDF_type, CODE ''Description'')
           \<in> graph (build_knowledge_graph data_list library_name)"
    by blast
next
  fix t
  assume "t \<in> graph (process_item l item st) \<and> pred_of t = CODE ''hasDescription''"
  with process_item_graph [of st l item] assms(3-5)
  show "t \<in> graph st" by (auto simp: description_edges_def)
next
  fix s :: rdf_node
  let ?t = "(s, CODE ''hasDescription'', uri_encode (CODE ''Description'') (j_id item @ ''_desc''))"
  assume "?t \<in> graph (build_knowledge_graph data_list library_name)"
  with fold_process_graph [of "initial_state library_name" "library_node_of library_name" data_list]
  have "?t \<in> graph (initial_state library_name) \<or> pred_of ?t \<noteq> CODE ''hasDescription''
        \<or> (\<exists>other \<in> set data_list. ?t \<in> description_edges other)"
    by (auto simp: build_knowledge_graph_def)
  with initial_no_description_edge [of ?t library_name]
  obtain other where "other \<in> set data_list" and "?t \<in> description_edges other"
    by (auto simp: pred_of_def)
  then show "\<exists>other \<in> set data_list. truthy (j_doc other)
                     \<and> (j_type other = ''class'' \<or> j_type other = ''function''
                          \<or> j_type other = ''member_function'')
                     \<and> uri_encode (CODE ''Description'') (j_id other @ ''_desc'')
                         = uri_encode (CODE ''Description'') (j_id item @ ''_desc'')"
    by (auto simp: description_edges_def split: if_splits)
qed

theorem description_of_other_kind_unattached_witness:
  "(uri_encode (CODE ''Description'') ''pkg.util_desc'', RDF_type, CODE ''Description'')
      \<in> graph (build_knowledge_graph module_only ''pkg 1.0'')
   \<and> (CODE ''API'', CODE ''hasDescription'', uri_encode (CODE ''Description'') ''pkg.util_desc'')
      \<notin> graph (build_knowledge_graph module_only ''pkg 1.0'')"
proof -
  let ?item = "(fresh_item ''module'' ''pkg.util'')\<lparr>j_doc := Some ''Utilities.''\<rparr>"
  have a: "?item \<in> set module_only" "truthy (j_doc ?item)" "j_type ?item \<noteq> ''class''"
    "j_type ?item \<noteq> ''function''" "j_type ?item \<noteq> ''member_function''" "j_id ?item = ''pkg.util''"
    by (simp_all add: module_only_def fresh_item_def truthy_def)
  note t = description_of_other_kind_unattached [OF a(1-5), of "''pkg 1.0''"
      "library_node_of ''pkg 1.0''" "initial_state ''pkg 1.0''"]
  have no: "\<not> (\<exists>other \<in> set module_only. truthy (j_doc other)
                     \<and> (j_type other = ''class'' \<or> j_type other = ''function''
                          \<or> j_type other = ''member_function''))"
    by (simp add: module_only_def fresh_item_def)
  from t a(6) have "(uri_encode (CODE ''Description'') ''pkg.util_desc'', RDF_type, CODE ''Description'')
      \<in> graph (build_knowledge_graph module_only ''pkg 1.0'')" by simp
  moreover from t no a(6) have "(CODE ''API'', CODE ''hasDescription'', uri_encode (CODE ''Description'') ''pkg.util_desc'')
      \<notin> graph (build_knowledge_graph module_only ''pkg 1.0'')" by auto
  ultimately show ?thesis by simp
qed

section \<open>Claims about the property-graph write\<close>

text \<open>
  C5: writing the same records twice into a store that was empty at first leaves the
  store exactly as the first write left it, nodes and relationships alike. The reason is
  the one the claim gives: the write is a sequence of merges by label and \<^verbatim>\<open>name\<close>
  (the Library node is created only if no node with its name exists), so the store after
  the write is the one that this sequence of keyed writes builds.
\<close>

theorem neo4j_write_idempotent:
  "write_to_neo4j_py2neo library_name data_list
     (write_to_neo4j_py2neo library_name data_list empty_store)
     = write_to_neo4j_py2neo library_name data_list empty_store
   \<and> write_to_neo4j_py2neo library_name data_list empty_store
     = store_of (fold key_exec
         (Ensure_Node (''Library'', library_name) # data_ops library_name data_list) empty_keyed)"
proof -
  let ?libk = "(''Library'', library_name)"
  let ?ops = "data_ops library_name data_list"
  define A0 where "A0 = key_exec (Ensure_Node ?libk) empty_keyed"
  define A1 where "A1 = fold key_exec ?ops A0"
  have e: "empty_store = store_of empty_keyed" and ok: "keyed_ok empty_keyed"
    using empty_store_keyed by simp_all
  note first = write_keyed [OF ok, of library_name data_list, folded A0_def A1_def]
  note second = write_keyed [OF first(2), of library_name data_list]
  from first(3) have "key_exec (Ensure_Node ?libk) A1 = A1" by simp
  moreover have "fold key_exec ?ops A1 = A1"
    unfolding A1_def by (rule fold_key_exec_idem [OF data_ops_merge])
  ultimately have "write_to_neo4j_py2neo library_name data_list (store_of A1) = store_of A1"
    using second(1) by simp
  with first(1) show ?thesis by (simp add: e A1_def A0_def)
qed

text \<open>
  C9: a class named \<open>Flask\<close> that lacks module attribution should get the fallback module
  \<open>flask.app\<close>, as the claim says and as the comments above both fallback branches of
  \<^verbatim>\<open>build_kg.py\<close> say (the class name is \<open>Flask\<close> or \<open>App\<close>). The code tests the
  \<^verbatim>\<open>class\<close> entry of the record instead, which the extractor leaves \<^verbatim>\<open>null\<close> on
  every class record (\<open>traverse_class_entry_None\<close>). So on the record of the class
  \<open>flask.Flask\<close> without \<^verbatim>\<open>module\<close> both paths choose \<open>UnknownModule\<close>: the graph has
  the \<open>include\<close> triple from \<open>ModuleUnknownModule\<close> and no Module \<open>flask.app\<close>, and
  the store holds the Library, the Module \<open>UnknownModule\<close> and the Class with one
  \<^verbatim>\<open>INCLUDE\<close> relationship, and no Module \<open>flask.app\<close>.
\<close>

theorem flask_class_gets_unknown_module:
  "unattributed_flask =
     [\<lparr> j_file = None, j_module = None, j_class = None, j_doc = None, j_returns_doc = None,
        j_parameters = [], j_type = ''class'', j_id = ''flask.Flask'' \<rparr>]
   \<and> (uri_encode (CODE ''Module'') ''UnknownModule'', CODE ''include'',
        uri_encode (CODE ''Class'') ''flask.Flask'')
       \<in> graph (build_knowledge_graph unattributed_flask ''Flask 3.0.2'')
   \<and> (uri_encode (CODE ''Module'') ''flask.app'', CODE ''include'',
        uri_encode (CODE ''Class'') ''flask.Flask'')
       \<notin> graph (build_knowledge_graph unattributed_flask ''Flask 3.0.2'')
   \<and> (uri_encode (CODE ''Module'') ''flask.app'', RDF_type, CODE ''Module'')
       \<notin> graph (build_knowledge_graph unattributed_flask ''Flask 3.0.2'')
   \<and> module_map (build_knowledge_graph unattributed_flask ''Flask 3.0.2'') ''flask.app'' = None
   \<and> module_map (build_knowledge_graph unattributed_flask ''Flask 3.0.2'') ''UnknownModule''
       = Some (uri_encode (CODE ''Module'') ''UnknownModule'')
   \<and> write_to_neo4j_py2neo ''Flask 3.0.2'' unattributed_flask empty_store
       = \<lparr> st_nodes = [Node ''Library'' ''Flask 3.0.2'' [],
                       Node ''Module'' ''UnknownModule'' [],
                       Node ''Class'' ''flask.Flask'' []],
           st_rels = {(1, ''INCLUDE'', 2)} \<rparr>
   \<and> find_node ''Module'' ''name'' (PStr ''flask.app'')
         (st_nodes (write_to_neo4j_py2neo ''Flask 3.0.2'' unattributed_flask empty_store)) = None"
proof -
  have kg: "(uri_encode (CODE ''Module'') ''UnknownModule'', CODE ''include'',
        uri_encode (CODE ''Class'') ''flask.Flask'')
       \<in> graph (build_knowledge_graph unattributed_flask ''Flask 3.0.2'')
   \<and> (uri_encode (CODE ''Module'') ''flask.app'', CODE ''include'',
        uri_encode (CODE ''Class'') ''flask.Flask'')
       \<notin> graph (build_knowledge_graph unattributed_flask ''Flask 3.0.2'')
   \<and> (uri_encode (CODE ''Module'') ''flask.app'', RDF_type, CODE ''Module'')
       \<notin> graph (build_knowledge_graph unattributed_flask ''Flask 3.0.2'')
   \<and> module_map (build_knowledge_graph unattributed_flask ''Flask 3.0.2'') ''flask.app'' = None
   \<and> module_map (build_knowledge_graph unattributed_flask ''Flask 3.0.2'') ''UnknownModule''
       = Some (uri_encode (CODE ''Module'') ''UnknownModule'')"
    by (simp add: build_knowledge_graph_def unattributed_flask_def fresh_item_def process_item_def
        handle_script_def handle_module_def handle_class_def fallback_module_def handle_api_def
        handle_doc_def handle_returns_def handle_params_def initial_state_def ontology_def
        library_node_of_def truthy_def node_truthy_def uri_encode_def safe_id_def CODE_def
        CODE_ns_def RDF_type_def RDFS_label_def string_literal_def XSD_string_def Let_def)
  have neo: "write_to_neo4j_py2neo ''Flask 3.0.2'' unattributed_flask empty_store
       = \<lparr> st_nodes = [Node ''Library'' ''Flask 3.0.2'' [],
                       Node ''Module'' ''UnknownModule'' [],
                       Node ''Class'' ''flask.Flask'' []],
           st_rels = {(1, ''INCLUDE'', 2)} \<rparr>"
    by (simp add: write_to_neo4j_py2neo_def unattributed_flask_def fresh_item_def neo_item_def
        neo_script_def neo_module_def neo_class_def neo_doc_def fallback_module_def
        merge_node_def merge_rel_def create_node_def Node_def empty_store_def truthy_def Let_def)
  have absent: "find_node ''Module'' ''name'' (PStr ''flask.app'')
         (st_nodes (write_to_neo4j_py2neo ''Flask 3.0.2'' unattributed_flask empty_store)) = None"
    by (simp add: neo Node_def)
  have input: "unattributed_flask =
     [\<lparr> j_file = None, j_module = None, j_class = None, j_doc = None, j_returns_doc = None,
        j_parameters = [], j_type = ''class'', j_id = ''flask.Flask'' \<rparr>]"
    by (simp add: unattributed_flask_def fresh_item_def)
  from input kg neo absent show ?thesis by blast
qed


end
